theory Spec2Isabelle
  imports Complex_Main "HOL-Library.Extended_Nat"
begin

section \<open>Data model\<close>

text \<open>
  Shallow embedding of the map core of CivCloneJS
  (\<^verbatim>\<open>src/server/game/map/index.ts\<close>, \<^verbatim>\<open>dist/server/tile.js\<close>,
  \<^verbatim>\<open>src/server/game.ts\<close> (class Improvement), \<^verbatim>\<open>dist/server/game.js\<close>).
  Objects are records, object references are handles (a tile is its slot in
  \<^verbatim>\<open>Map.tiles\<close>, a city its index in \<^verbatim>\<open>Map.cities\<close>), mutation is explicit
  state passing, and a thrown \<^verbatim>\<open>TypeError\<close> is the result \<open>None\<close>.
  Record fields keep the source's names; a field name shared by two classes gets a
  one-letter prefix of its class.
\<close>

record Coords =
  x :: int
  y :: int

text \<open>A JavaScript number as the visibility counters hold it: \<^verbatim>\<open>undefined++\<close> is NaN.\<close>

datatype jsnum = NaN | Num int

text \<open>An own property of a JavaScript object literal: present with a value, or absent.\<close>

datatype 'a field = Absent | Present 'a

text \<open>\<^verbatim>\<open>class Yield\<close> (tile.js): \<^verbatim>\<open>food\<close> and \<^verbatim>\<open>production\<close>, 0 when the parameter has no such key.\<close>

record Yield =
  food :: nat
  production :: nat

definition add :: "Yield \<Rightarrow> Yield \<Rightarrow> Yield" where
  "add a other = \<lparr>food = food a + food other, production = production a + production other\<rparr>"

definition emptyYield :: Yield where
  "emptyYield = \<lparr>food = 0, production = 0\<rparr>"

text \<open>
  Modelled from the spec: \<^verbatim>\<open>class ResourceStore\<close> (yield.ts) is not under src/. The spec:
  a ResourceStore wraps a Yield with a per-key capacity Yield; \<^verbatim>\<open>incr\<close> adds,
  \<^verbatim>\<open>cap\<close> clamps to capacity, \<^verbatim>\<open>fulfills(cost)\<close> is componentwise \<open>\<ge>\<close>,
  \<^verbatim>\<open>divNumber(n)\<close> is the per-key floor division, subtraction saturates at zero.
  \<open>stored\<close> is the wrapped Yield (the amounts in the store).
\<close>

record ResourceStore =
  stored :: Yield
  capacity :: Yield

datatype ErrandType = CONSTRUCTION | UNIT_TRAINING | RESEARCH

record ErrandAction =
  a_type :: ErrandType
  a_option :: string
  a_location :: "Coords option"

record WorkErrand =
  e_type :: ErrandType
  e_option :: string
  cost :: Yield
  storedThisTurn :: Yield
  completed :: bool
  e_location :: "Coords option"

record Improvement =
  i_type :: string
  pillaged :: bool
  isNatural :: bool
  i_yield :: Yield
  storage :: ResourceStore
  errand :: "WorkErrand option"
  i_traders :: "nat list"
  suppliers :: "nat list"

record Unit =
  u_type :: string
  u_civID :: nat
  coords :: Coords
  visionRange :: int

record City =
  center :: Coords
  name :: string
  c_civID :: nat
  c_tiles :: "Coords list"

record Tile =
  movementCost :: "nat list"
  type :: string
  unit :: "Unit option"
  improvement :: "Improvement option"
  owner :: "nat option"
  discoveredBy :: "nat \<rightharpoonup> bool"
  visibleTo :: "nat \<rightharpoonup> jsnum"
  baseYield :: Yield
  elevation :: int

text \<open>
  Modelled from the spec: \<^verbatim>\<open>class Trader\<close> (trade.ts) is not under src/. The spec: a
  Trader has an owning civID, a Route (a path of Coords with its total distance), a
  producer and a sink Improvement, a speed, a capacity Yield, a carried Yield and
  \<^verbatim>\<open>expired\<close>. The producer and the sink are named by the slot of their tile.
\<close>

record Trader =
  t_civID :: nat
  route :: "Coords list \<times> enat option"
  source :: int
  sink :: int
  speed :: nat
  t_capacity :: Yield
  carried :: Yield
  expired :: bool

text \<open>
  \<^verbatim>\<open>class Map\<close>. \<^verbatim>\<open>tiles\<close> is \<^verbatim>\<open>new Array(height*width)\<close>: a slot is empty
  (\<open>None\<close>) until \<^verbatim>\<open>setTile\<close> fills it. A Trader object is shared by
  \<^verbatim>\<open>Map.traders\<close> and the subscriber lists of two improvements: the objects live in
  \<open>traderHeap\<close> and the lists hold indices into it. An entry of \<^verbatim>\<open>updates\<close> is the
  closure \<^verbatim>\<open>civID => ['tileUpdate', [coords, getCivTile(civID, tile)]]\<close>, kept as
  the coords it closes over.
\<close>

record Map =
  height :: int
  width :: int
  tiles :: "Tile option list"
  cities :: "City list"
  traders :: "nat list"
  traderHeap :: "Trader list"
  updates :: "Coords list"

record ImprovementData =
  d_itype :: string
  d_pillaged :: bool
  d_storage :: ResourceStore
  d_errand :: "WorkErrand option"
  d_isNatural :: bool

record TileData =
  d_type :: string
  d_movementCost :: "nat list"
  d_improvement :: "ImprovementData option"
  d_owner :: "nat option"
  d_yield :: Yield
  d_unit :: "Unit option field"
  d_visible :: "bool field"

section \<open>Tile (dist/server/tile.js)\<close>

text \<open>
  The table of the constructor, \<^verbatim>\<open>this.movementCost = tileMovementCostTable[type]\<close>:
  land and water cost of a terrain, 0 for impassable.
\<close>

definition tileMovementCostTable :: "string \<rightharpoonup> nat list" where
  "tileMovementCostTable = [
     ''plains'' \<mapsto> [1, 0],
     ''desert'' \<mapsto> [1, 0],
     ''ocean'' \<mapsto> [0, 1],
     ''river'' \<mapsto> [3, 1],
     ''mountain'' \<mapsto> [0, 0]]"

definition getTileYield :: "Tile \<Rightarrow> Yield" where
  "getTileYield t =
     (case improvement t of
        Some i \<Rightarrow> add (baseYield t) (i_yield i)
      | None \<Rightarrow> baseYield t)"

text \<open>\<^verbatim>\<open>Improvement.getData\<close> (game.ts).\<close>

definition getData :: "Improvement \<Rightarrow> ImprovementData" where
  "getData i = \<lparr>d_itype = i_type i, d_pillaged = pillaged i, d_storage = storage i,
     d_errand = errand i, d_isNatural = isNatural i\<rparr>"

text \<open>
  \<^verbatim>\<open>getDiscoveredData\<close> builds an object with the five keys type, movementCost,
  improvement, owner, yield: it has no key \<^verbatim>\<open>unit\<close> and no key \<^verbatim>\<open>visible\<close>.
  \<^verbatim>\<open>getVisibleData\<close> spreads it and adds \<^verbatim>\<open>unit\<close> and \<^verbatim>\<open>visible: true\<close>.
  The owner's and the unit's \<^verbatim>\<open>getData\<close> are not under src/: the snapshot holds the
  city handle and the unit record.
\<close>

definition getDiscoveredData :: "Tile \<Rightarrow> TileData" where
  "getDiscoveredData t = \<lparr>d_type = type t, d_movementCost = movementCost t,
     d_improvement = map_option getData (improvement t), d_owner = owner t,
     d_yield = getTileYield t, d_unit = Absent, d_visible = Absent\<rparr>"

definition getVisibleData :: "Tile \<Rightarrow> TileData" where
  "getVisibleData t = (getDiscoveredData t)\<lparr>d_unit := Present (unit t), d_visible := Present True\<rparr>"

definition setUnit :: "Tile \<Rightarrow> Unit option \<Rightarrow> Tile" where
  "setUnit t u = t\<lparr>unit := u\<rparr>"

text \<open>\<^verbatim>\<open>v++\<close> and \<^verbatim>\<open>v--\<close> on a property that may be undefined.\<close>

fun incr_js :: "jsnum option \<Rightarrow> jsnum" where
  "incr_js None = NaN"
| "incr_js (Some NaN) = NaN"
| "incr_js (Some (Num n)) = Num (n + 1)"

fun decr_js :: "jsnum option \<Rightarrow> jsnum" where
  "decr_js None = NaN"
| "decr_js (Some NaN) = NaN"
| "decr_js (Some (Num n)) = Num (n - 1)"

text \<open>Truthiness of a counter: undefined, NaN and 0 are falsy, every other number is truthy.\<close>

fun truthy_num :: "jsnum option \<Rightarrow> bool" where
  "truthy_num None = False"
| "truthy_num (Some NaN) = False"
| "truthy_num (Some (Num n)) = (n \<noteq> 0)"

definition truthy_bool :: "bool option \<Rightarrow> bool" where
  "truthy_bool b = (b = Some True)"

definition setVisibility :: "Tile \<Rightarrow> nat \<Rightarrow> bool \<Rightarrow> Tile" where
  "setVisibility t civID visible =
     (let t1 = (if visible
                then t\<lparr>visibleTo := (visibleTo t)(civID \<mapsto> incr_js (visibleTo t civID))\<rparr>
                else t\<lparr>visibleTo := (visibleTo t)(civID \<mapsto> decr_js (visibleTo t civID))\<rparr>)
      in if visible \<and> \<not> truthy_bool (discoveredBy t1 civID)
         then t1\<lparr>discoveredBy := (discoveredBy t1)(civID \<mapsto> True)\<rparr>
         else t1)"

definition clearVisibility :: "Tile \<Rightarrow> nat \<Rightarrow> Tile" where
  "clearVisibility t civID = t\<lparr>visibleTo := (visibleTo t)(civID \<mapsto> Num 0)\<rparr>"

section \<open>Map (src/server/game/map/index.ts)\<close>

text \<open>
  \<^verbatim>\<open>getCivTile\<close>: both tests are JavaScript truthiness tests, of
  \<^verbatim>\<open>tile.discoveredBy[civID]\<close> and of \<^verbatim>\<open>tile.visibleTo[civID]\<close>. \<open>None\<close> is null.
\<close>

definition getCivTile :: "nat \<Rightarrow> Tile \<Rightarrow> TileData option" where
  "getCivTile civID t =
     (if truthy_bool (discoveredBy t civID) then
        (if truthy_num (visibleTo t civID) then Some (getVisibleData t)
         else Some (getDiscoveredData t))
      else None)"

text \<open>
  Modelled from the spec: \<^verbatim>\<open>mod\<close> of utils is not under src/. The spec: x is taken
  modulo the map width before indexing (toroidal east/west wrap): the result lies in
  \<open>[0, n)\<close> for a positive \<open>n\<close>.
\<close>

definition mod_u :: "int \<Rightarrow> int \<Rightarrow> int" where
  "mod_u a n = a mod n"

definition pos :: "Map \<Rightarrow> Coords \<Rightarrow> int" where
  "pos m c = (y c * width m) + mod_u (x c) (width m)"

text \<open>\<^verbatim>\<open>this.tiles[this.pos(coords)]\<close>: undefined outside the array and at an empty slot.\<close>

definition getTile :: "Map \<Rightarrow> Coords \<Rightarrow> Tile option" where
  "getTile m c =
     (let p = pos m c
      in if 0 \<le> p \<and> p < int (length (tiles m)) then tiles m ! nat p else None)"

text \<open>
  Writing a field of the tile object found by \<^verbatim>\<open>getTile(coords)\<close>: the slot takes
  the changed tile. Only used where \<^verbatim>\<open>getTile\<close> has returned a tile.
\<close>

definition putTile :: "Map \<Rightarrow> Coords \<Rightarrow> Tile \<Rightarrow> Map" where
  "putTile m c t = m\<lparr>tiles := (tiles m)[nat (pos m c) := Some t]\<rparr>"

text \<open>
  Modelled from the spec: \<^verbatim>\<open>getAdjacentCoords\<close> and \<^verbatim>\<open>getCoordInDirection\<close> of
  utils are not under src/. The spec: hexes are laid out in odd-x offset;
  \<^verbatim>\<open>getAdjacentCoords(c)\<close> yields the six neighbours with x-parity-dependent y
  offsets; \<^verbatim>\<open>getCoordInDirection(c, d)\<close> takes d modulo 6 and returns the neighbour
  in direction d. Odd columns are the ones shifted towards greater y.
\<close>

definition getAdjacentCoords :: "Coords \<Rightarrow> Coords list" where
  "getAdjacentCoords c =
     (if mod_u (x c) 2 = 1 then
        [\<lparr>x = x c, y = y c + 1\<rparr>, \<lparr>x = x c + 1, y = y c + 1\<rparr>, \<lparr>x = x c + 1, y = y c\<rparr>,
         \<lparr>x = x c, y = y c - 1\<rparr>, \<lparr>x = x c - 1, y = y c\<rparr>, \<lparr>x = x c - 1, y = y c + 1\<rparr>]
      else
        [\<lparr>x = x c, y = y c + 1\<rparr>, \<lparr>x = x c + 1, y = y c\<rparr>, \<lparr>x = x c + 1, y = y c - 1\<rparr>,
         \<lparr>x = x c, y = y c - 1\<rparr>, \<lparr>x = x c - 1, y = y c - 1\<rparr>, \<lparr>x = x c - 1, y = y c\<rparr>])"

definition getCoordInDirection :: "Coords \<Rightarrow> int \<Rightarrow> Coords" where
  "getCoordInDirection c d = getAdjacentCoords c ! nat (mod_u d 6)"

text \<open>
  The three accumulators of \<^verbatim>\<open>getNeighborsRecurse\<close>: \<^verbatim>\<open>tileSet\<close> (a Set of Tile
  objects, here of their slots), \<^verbatim>\<open>coordList\<close> and \<^verbatim>\<open>rangeMap\<close>.
\<close>

record NState =
  tileSet :: "int list"
  coordList :: "Coords list"
  rangeMap :: "int \<rightharpoonup> int"

text \<open>\<^verbatim>\<open>!rangeMap[pos] || rangeMap[pos] < r - 1\<close>: an entry that is undefined or 0 is falsy.\<close>

definition expandable :: "(int \<rightharpoonup> int) \<Rightarrow> int \<Rightarrow> int \<Rightarrow> bool" where
  "expandable rm p r = (case rm p of None \<Rightarrow> True | Some v \<Rightarrow> v = 0 \<or> v < r - 1)"

definition visit :: "Map \<Rightarrow> (Tile \<Rightarrow> Coords \<Rightarrow> bool) option \<Rightarrow> Tile \<Rightarrow> Coords \<Rightarrow> int \<Rightarrow> NState \<Rightarrow> NState" where
  "visit m flt tile c r st =
     (if pos m c \<notin> set (tileSet st) then
        (if (case flt of None \<Rightarrow> True | Some f \<Rightarrow> f tile c)
         then st\<lparr>tileSet := pos m c # tileSet st, coordList := coordList st @ [c],
                 rangeMap := (rangeMap st)(pos m c \<mapsto> r)\<rparr>
         else st)
      else st)"

function getNeighborsRecurse ::
  "Map \<Rightarrow> (Tile \<Rightarrow> Coords \<Rightarrow> bool) option \<Rightarrow> Coords \<Rightarrow> int \<Rightarrow> NState \<Rightarrow> NState" where
  "getNeighborsRecurse m flt c r st =
     (case getTile m c of
        None \<Rightarrow> st
      | Some tile \<Rightarrow>
          if r \<ge> 0 then
            fold (\<lambda>coord s.
                    if expandable (rangeMap s) (pos m coord) r
                    then getNeighborsRecurse m flt coord (r - 1) s
                    else s)
                 (getAdjacentCoords c) (visit m flt tile c r st)
          else st)"
  by pat_completeness auto
termination
  by (relation "measure (\<lambda>(m, flt, c, r, st). nat (r + 1))") auto

declare getNeighborsRecurse.simps [simp del]

lemma getNeighborsRecurse_None:
  "getTile m c = None \<Longrightarrow> getNeighborsRecurse m flt c r st = st"
  by (simp add: getNeighborsRecurse.simps [of m flt c r st])

lemma getNeighborsRecurse_negative:
  "r < 0 \<Longrightarrow> getNeighborsRecurse m flt c r st = st"
  by (simp add: getNeighborsRecurse.simps [of m flt c r st] split: option.splits)

lemma getNeighborsRecurse_Some:
  "getTile m c = Some tile \<Longrightarrow> 0 \<le> r \<Longrightarrow>
   getNeighborsRecurse m flt c r st =
     fold (\<lambda>coord s. if expandable (rangeMap s) (pos m coord) r
                      then getNeighborsRecurse m flt coord (r - 1) s else s)
          (getAdjacentCoords c) (visit m flt tile c r st)"
  by (simp add: getNeighborsRecurse.simps [of m flt c r st])

definition getNeighborsCoords :: "Map \<Rightarrow> Coords \<Rightarrow> int \<Rightarrow> (Tile \<Rightarrow> Coords \<Rightarrow> bool) option \<Rightarrow> Coords list" where
  "getNeighborsCoords m c r flt =
     coordList (getNeighborsRecurse m flt c r \<lparr>tileSet = [], coordList = [], rangeMap = Map.empty\<rparr>)"

subsection \<open>Improvement (src/server/game.ts)\<close>

definition yieldTable :: "string \<rightharpoonup> Yield" where
  "yieldTable = [
     ''settlement'' \<mapsto> \<lparr>food = 2, production = 2\<rparr>,
     ''encampment'' \<mapsto> \<lparr>food = 0, production = 1\<rparr>,
     ''farm'' \<mapsto> \<lparr>food = 1, production = 0\<rparr>,
     ''forest'' \<mapsto> \<lparr>food = 1, production = 0\<rparr>]"

definition storeCapTable :: "string \<rightharpoonup> Yield" where
  "storeCapTable = [
     ''settlement'' \<mapsto> \<lparr>food = 20, production = 2\<rparr>,
     ''encampment'' \<mapsto> \<lparr>food = 10, production = 1\<rparr>,
     ''farm'' \<mapsto> \<lparr>food = 20, production = 0\<rparr>]"

definition naturalImprovementTable :: "string \<rightharpoonup> bool" where
  "naturalImprovementTable = [''forest'' \<mapsto> True]"

definition improvementHeightTable :: "string \<rightharpoonup> int" where
  "improvementHeightTable = [''forest'' \<mapsto> 5]"

text \<open>Modelled from the spec: the constructor of ResourceStore, an empty store of the given capacity.\<close>

definition newResourceStore :: "Yield \<Rightarrow> ResourceStore" where
  "newResourceStore c = \<lparr>stored = emptyYield, capacity = c\<rparr>"

text \<open>
  \<^verbatim>\<open>new Improvement(type, baseYield)\<close>, for a type that is not the empty string (for
  the empty string the constructor returns before it sets any field).
\<close>

definition newImprovement :: "string \<Rightarrow> Yield \<Rightarrow> Improvement" where
  "newImprovement ty by =
     (let natural = (naturalImprovementTable ty = Some True)
      in \<lparr>i_type = ty, pillaged = False, isNatural = natural,
          i_yield = (if natural then emptyYield
                     else add by (case yieldTable ty of Some v \<Rightarrow> v | None \<Rightarrow> emptyYield)),
          storage = newResourceStore (case storeCapTable ty of Some v \<Rightarrow> v | None \<Rightarrow> emptyYield),
          errand = None, i_traders = [], suppliers = []\<rparr>)"

subsection \<open>Ownership and settling\<close>

text \<open>
  Modelled from the spec: \<^verbatim>\<open>class City\<close> (city.ts) is not under src/. The spec: a City
  has a name, an owning civID, centre coords and the set of owned coords.
\<close>

definition newCity :: "Coords \<Rightarrow> string \<Rightarrow> nat \<Rightarrow> City" where
  "newCity c n civID = \<lparr>center = c, name = n, c_civID = civID, c_tiles = []\<rparr>"

definition addTile :: "City \<Rightarrow> Coords \<Rightarrow> City" where
  "addTile ci c = ci\<lparr>c_tiles := (if c \<in> set (c_tiles ci) then c_tiles ci else c_tiles ci @ [c])\<rparr>"

definition removeTile :: "City \<Rightarrow> Coords \<Rightarrow> City" where
  "removeTile ci c = ci\<lparr>c_tiles := removeAll c (c_tiles ci)\<rparr>"

text \<open>\<^verbatim>\<open>tile.owner?.civID\<close>: undefined when the tile has no owner.\<close>

definition ownerCivID :: "Map \<Rightarrow> Tile \<Rightarrow> nat option" where
  "ownerCivID m t =
     (case owner t of
        None \<Rightarrow> None
      | Some i \<Rightarrow> if i < length (cities m) then Some (c_civID (cities m ! i)) else None)"

definition tileUpdate :: "Map \<Rightarrow> Coords \<Rightarrow> Map" where
  "tileUpdate m c = m\<lparr>updates := updates m @ [c]\<rparr>"

text \<open>
  \<^verbatim>\<open>setTileOwner(coords, owner, overwrite)\<close>; the owner is a city of \<^verbatim>\<open>Map.cities\<close>,
  given by its index. \<open>None\<close>: \<^verbatim>\<open>getTile\<close> gave undefined and \<^verbatim>\<open>tile.owner\<close>
  throws (or a handle names no city, which no JavaScript reference does).
\<close>

definition setTileOwner :: "Map \<Rightarrow> Coords \<Rightarrow> nat \<Rightarrow> bool \<Rightarrow> Map option" where
  "setTileOwner m c ow overwrite =
     (case getTile m c of
        None \<Rightarrow> None
      | Some tile \<Rightarrow>
          if ow \<ge> length (cities m) then None
          else
            (case owner tile of
               Some old \<Rightarrow>
                 if \<not> overwrite then Some m
                 else if old \<ge> length (cities m) then None
                 else
                   (let cs1 = (cities m)[old := removeTile (cities m ! old) c];
                        t1 = setVisibility tile (c_civID (cs1 ! old)) False;
                        t2 = t1\<lparr>owner := Some ow\<rparr>;
                        t3 = setVisibility t2 (c_civID (cs1 ! ow)) True;
                        cs2 = cs1[ow := addTile (cs1 ! ow) c]
                    in Some (putTile (m\<lparr>cities := cs2\<rparr>) c t3))
             | None \<Rightarrow>
                 (let t2 = tile\<lparr>owner := Some ow\<rparr>;
                      t3 = setVisibility t2 (c_civID (cities m ! ow)) True;
                      cs2 = (cities m)[ow := addTile (cities m ! ow) c]
                  in Some (putTile (m\<lparr>cities := cs2\<rparr>) c t3))))"

definition canSettleOn :: "Tile \<Rightarrow> bool" where
  "canSettleOn t =
     (owner t = None \<and>
      type t \<noteq> ''ocean'' \<and>
      type t \<noteq> ''frozen_ocean'' \<and>
      type t \<noteq> ''mountain'' \<and>
      type t \<noteq> ''coastal'' \<and>
      type t \<noteq> ''frozen_coastal'' \<and>
      type t \<noteq> ''river'')"

definition canBuildOn :: "Tile \<Rightarrow> bool" where
  "canBuildOn t =
     (type t \<noteq> ''ocean'' \<and>
      type t \<noteq> ''frozen_ocean'' \<and>
      type t \<noteq> ''mountain'')"

definition buildImprovementAt :: "Map \<Rightarrow> Coords \<Rightarrow> string \<Rightarrow> nat \<Rightarrow> Map option" where
  "buildImprovementAt m c ty ownerID =
     (case getTile m c of
        None \<Rightarrow> None
      | Some tile \<Rightarrow>
          if ownerCivID m tile \<noteq> Some ownerID then Some m
          else if \<not> canBuildOn tile then Some m
          else Some (tileUpdate
                 (putTile m c (tile\<lparr>improvement := Some (newImprovement ty (baseYield tile))\<rparr>)) c))"

text \<open>The body of the loop of \<^verbatim>\<open>settleCityAt\<close>, and a \<^verbatim>\<open>for ... of\<close> loop whose body may throw.\<close>

fun forEach :: "('a \<Rightarrow> 's \<Rightarrow> 's option) \<Rightarrow> 'a list \<Rightarrow> 's \<Rightarrow> 's option" where
  "forEach f [] s = Some s"
| "forEach f (a # as) s = (case f a s of None \<Rightarrow> None | Some s' \<Rightarrow> forEach f as s')"

definition settleNeighbor :: "nat \<Rightarrow> Coords \<Rightarrow> Map \<Rightarrow> Map option" where
  "settleNeighbor city neighbor m = map_option (\<lambda>m'. tileUpdate m' neighbor) (setTileOwner m neighbor city False)"

definition settleCityAt :: "Map \<Rightarrow> Coords \<Rightarrow> string \<Rightarrow> nat \<Rightarrow> (Map \<times> bool) option" where
  "settleCityAt m c n civID =
     (case getTile m c of
        None \<Rightarrow> None
      | Some tile \<Rightarrow>
          if \<not> canSettleOn tile then Some (m, False)
          else
            (let city = length (cities m);
                 m1 = m\<lparr>cities := cities m @ [newCity c n civID]\<rparr>
             in case forEach (settleNeighbor city) (getNeighborsCoords m1 c 1 None) m1 of
                  None \<Rightarrow> None
                | Some m2 \<Rightarrow>
                    (case buildImprovementAt m2 c ''settlement'' civID of
                       None \<Rightarrow> None
                     | Some m3 \<Rightarrow> Some (m3, True))))"

definition isInBounds :: "Map \<Rightarrow> Coords \<Rightarrow> bool" where
  "isInBounds m c =
     (mod_u (x c) (width m) \<ge> 0 \<and> mod_u (x c) (width m) < width m \<and> y c \<ge> 0 \<and> y c < height m)"

section \<open>State invariants\<close>

text \<open>
  A map after generation or import: \<^verbatim>\<open>tiles\<close> has \<^verbatim>\<open>height*width\<close> slots and every
  slot holds a tile.
\<close>

definition populated :: "Map \<Rightarrow> bool" where
  "populated m = (int (length (tiles m)) = height m * width m \<and> None \<notin> set (tiles m))"

subsection \<open>Path search\<close>

text \<open>
  \<^verbatim>\<open>enum MovementClass\<close> (unit.ts) is not under src/; the spec names LAND, WATER and
  AIR. \<^verbatim>\<open>tile.movementCost\<close> is the pair [land, water] of the table in tile.js, so
  LAND reads index 0 and WATER index 1; AIR reads nothing.
  \<^verbatim>\<open>mode !== MovementClass.AIR ? tile.movementCost[mode] || Infinity : 1\<close>: a cost
  that is 0 or undefined is Infinity.
\<close>

datatype MovementClass = LAND | WATER | AIR

fun modeIndex :: "MovementClass \<Rightarrow> nat option" where
  "modeIndex LAND = Some 0"
| "modeIndex WATER = Some 1"
| "modeIndex AIR = None"

definition movementCostOf :: "MovementClass \<Rightarrow> Tile \<Rightarrow> enat" where
  "movementCostOf mode t =
     (case modeIndex mode of
        None \<Rightarrow> 1
      | Some i \<Rightarrow> if i < length (movementCost t) \<and> movementCost t ! i \<noteq> 0
                  then enat (movementCost t ! i) else \<infinity>)"

text \<open>
  The state of the while loop of \<^verbatim>\<open>getPathTree\<close>: the FIFO \<^verbatim>\<open>queue\<close>, \<^verbatim>\<open>dst\<close>
  and \<^verbatim>\<open>paths\<close>, both keyed by \<^verbatim>\<open>pos\<close>. \<open>relax\<close> is the body of the inner
  \<^verbatim>\<open>for\<close> loop for one \<^verbatim>\<open>adjPos\<close>: it assigns \<^verbatim>\<open>dst[pos(adjPos)]\<close> first and
  tests \<^verbatim>\<open>dst[pos(adjPos)] <= range\<close> afterwards. \<open>None\<close>: \<^verbatim>\<open>tile.movementCost\<close> of
  an undefined tile throws; the branch for a missing \<^verbatim>\<open>dst[pos(atPos)]\<close> is never
  reached (a coordinate is queued after its distance is set).
\<close>

record PState =
  queue :: "Coords list"
  dst :: "int \<rightharpoonup> enat"
  paths :: "int \<rightharpoonup> Coords"

definition relax :: "Map \<Rightarrow> nat \<Rightarrow> MovementClass \<Rightarrow> Coords \<Rightarrow> Coords \<Rightarrow> PState \<Rightarrow> PState option" where
  "relax m range' mode atPos adjPos st =
     (case (if mode \<noteq> AIR then map_option (movementCostOf mode) (getTile m adjPos) else Some 1) of
        None \<Rightarrow> None
      | Some stepCost \<Rightarrow>
          (case dst st (pos m atPos) of
             None \<Rightarrow> None
           | Some d \<Rightarrow>
               if (case dst st (pos m adjPos) of None \<Rightarrow> True | Some old \<Rightarrow> old > d + stepCost)
               then
                 (let st1 = st\<lparr>dst := (dst st)(pos m adjPos \<mapsto> d + stepCost)\<rparr>
                  in if d + stepCost \<le> enat range'
                     then Some (st1\<lparr>paths := (paths st1)(pos m adjPos \<mapsto> atPos),
                                    queue := queue st1 @ [adjPos]\<rparr>)
                     else Some st1)
               else Some st))"

text \<open>
  Termination of the loop: every relaxation that queues a coordinate lowers the
  distance of a slot to a number within the range, so twice the sum below plus the
  length of the queue decreases with every iteration.
\<close>

definition slack :: "nat \<Rightarrow> enat option \<Rightarrow> nat" where
  "slack range' d =
     (case d of None \<Rightarrow> range' + 2
      | Some v \<Rightarrow> if v \<le> enat range' then the_enat v else range' + 1)"

definition potential :: "Map \<Rightarrow> nat \<Rightarrow> PState \<Rightarrow> nat" where
  "potential m range' st =
     2 * (\<Sum>p < length (tiles m). slack range' (dst st (int p))) + length (queue st)"

lemma slack_sum_update:
  assumes "p0 < n"
  shows "(\<Sum>p < n. slack range' ((f(int p0 \<mapsto> v)) (int p)))
       + slack range' (f (int p0))
       = (\<Sum>p < n. slack range' (f (int p))) + slack range' (Some v)"
proof -
  have fin: "finite {..<n}" and mem: "p0 \<in> {..<n}" using assms by auto
  have a: "(\<Sum>p < n. slack range' ((f(int p0 \<mapsto> v)) (int p)))
     = slack range' (Some v) + (\<Sum>p \<in> {..<n} - {p0}. slack range' ((f(int p0 \<mapsto> v)) (int p)))"
    using sum.remove [OF fin mem, of "\<lambda>p. slack range' ((f(int p0 \<mapsto> v)) (int p))"] by simp
  have b: "(\<Sum>p < n. slack range' (f (int p)))
     = slack range' (f (int p0)) + (\<Sum>p \<in> {..<n} - {p0}. slack range' (f (int p)))"
    using sum.remove [OF fin mem, of "\<lambda>p. slack range' (f (int p))"] by simp
  have c: "(\<Sum>p \<in> {..<n} - {p0}. slack range' ((f(int p0 \<mapsto> v)) (int p)))
     = (\<Sum>p \<in> {..<n} - {p0}. slack range' (f (int p)))"
    by (rule sum.cong) auto
  from a b c show ?thesis by simp
qed

lemma slack_decrease_push:
  assumes "v \<le> enat range'" "case old of None \<Rightarrow> True | Some o' \<Rightarrow> o' > v"
  shows "slack range' (Some v) < slack range' old"
proof (cases old)
  case None
  from assms(1) obtain k where "v = enat k" "k \<le> range'" by (cases v) auto
  with None show ?thesis by (simp add: slack_def)
next
  case (Some o')
  from assms(1) obtain k where k: "v = enat k" "k \<le> range'" by (cases v) auto
  from Some assms(2) have gt: "o' > v" by simp
  show ?thesis
  proof (cases "o' \<le> enat range'")
    case True
    then obtain j where "o' = enat j" by (cases o') auto
    with gt k Some True show ?thesis by (simp add: slack_def)
  next
    case False
    with k Some show ?thesis by (simp add: slack_def)
  qed
qed

lemma slack_nonincrease:
  assumes "case old of None \<Rightarrow> True | Some o' \<Rightarrow> o' > v"
  shows "slack range' (Some v) \<le> slack range' old"
proof (cases "v \<le> enat range'")
  case True
  from slack_decrease_push [OF True assms] show ?thesis by simp
next
  case False
  show ?thesis
  proof (cases old)
    case None
    with False show ?thesis by (simp add: slack_def)
  next
    case (Some o')
    with assms have "o' > v" by simp
    with False have "\<not> o' \<le> enat range'" by auto
    with False Some show ?thesis by (simp add: slack_def)
  qed
qed

lemma relax_potential:
  assumes "relax m range' mode atPos adjPos st = Some st'" "getTile m adjPos \<noteq> None"
  shows "potential m range' st' \<le> potential m range' st"
proof -
  from assms(2) obtain t where t: "getTile m adjPos = Some t" by auto
  then have rng: "0 \<le> pos m adjPos" "pos m adjPos < int (length (tiles m))"
    by (simp_all add: getTile_def Let_def split: if_splits)
  define p0 where "p0 = nat (pos m adjPos)"
  have p0: "p0 < length (tiles m)" "int p0 = pos m adjPos" using rng by (simp_all add: p0_def)
  from assms(1) obtain c d where c: "(if mode \<noteq> AIR then map_option (movementCostOf mode) (getTile m adjPos) else Some 1) = Some c"
    and d: "dst st (pos m atPos) = Some d"
    by (auto simp: relax_def split: option.splits)
  let ?new = "d + c"
  show ?thesis
  proof (cases "case dst st (pos m adjPos) of None \<Rightarrow> True | Some old \<Rightarrow> old > ?new")
    case False
    with assms(1) c d have "st' = st" by (simp add: relax_def)
    then show ?thesis by simp
  next
    case True
    let ?S = "\<lambda>f. (\<Sum>p < length (tiles m). slack range' (f (int p)))"
    from slack_sum_update [OF p0(1), of range' "dst st" ?new]
    have eq: "?S ((dst st)(pos m adjPos \<mapsto> ?new)) + slack range' (dst st (pos m adjPos))
        = ?S (dst st) + slack range' (Some ?new)" by (simp add: p0(2))
    show ?thesis
    proof (cases "?new \<le> enat range'")
      case le: True
      from assms(1) c d True le have
        st': "st' = st\<lparr>dst := (dst st)(pos m adjPos \<mapsto> ?new),
                 paths := (paths st)(pos m adjPos \<mapsto> atPos), queue := queue st @ [adjPos]\<rparr>"
        by (simp add: relax_def Let_def)
      from slack_decrease_push [OF le True] eq
      have "?S ((dst st)(pos m adjPos \<mapsto> ?new)) < ?S (dst st)" by linarith
      then show ?thesis by (simp add: st' potential_def)
    next
      case gt: False
      from assms(1) c d True gt have
        st': "st' = st\<lparr>dst := (dst st)(pos m adjPos \<mapsto> ?new)\<rparr>"
        by (simp add: relax_def Let_def)
      from slack_nonincrease [OF True, of range'] eq
      have "?S ((dst st)(pos m adjPos \<mapsto> ?new)) \<le> ?S (dst st)" by linarith
      then show ?thesis by (simp add: st' potential_def)
    qed
  qed
qed

lemma forEach_potential:
  assumes "forEach (relax m range' mode atPos) cs st = Some st'"
    and "\<And>a. a \<in> set cs \<Longrightarrow> getTile m a \<noteq> None"
  shows "potential m range' st' \<le> potential m range' st"
  using assms
proof (induction cs arbitrary: st)
  case Nil
  then show ?case by simp
next
  case (Cons a cs)
  from Cons.prems(1) obtain s1 where s1: "relax m range' mode atPos a st = Some s1"
    and r: "forEach (relax m range' mode atPos) cs s1 = Some st'"
    by (auto split: option.splits)
  from relax_potential [OF s1] Cons.prems(2) have "potential m range' s1 \<le> potential m range' st" by simp
  moreover from Cons.IH [OF r] Cons.prems(2) have "potential m range' st' \<le> potential m range' s1" by simp
  ultimately show ?case by simp
qed

lemma fold_invariant:
  assumes "P s" "\<And>a s. a \<in> set xs \<Longrightarrow> P s \<Longrightarrow> P (f a s)"
  shows "P (fold f xs s)"
  using assms by (induction xs arbitrary: s) auto

lemma getNeighborsRecurse_tiles:
  assumes "\<forall>a \<in> set (coordList st). getTile m a \<noteq> None"
  shows "\<forall>a \<in> set (coordList (getNeighborsRecurse m flt c r st)). getTile m a \<noteq> None"
  using assms
proof (induction m flt c r st rule: getNeighborsRecurse.induct)
  case (1 m flt c r st)
  show ?case
  proof (cases "getTile m c")
    case None
    then have "getNeighborsRecurse m flt c r st = st" by (rule getNeighborsRecurse_None)
    with "1.prems" show ?thesis by (simp only:)
  next
    case (Some tile)
    show ?thesis
    proof (cases "r \<ge> 0")
      case False
      then have "r < 0" by simp
      then have "getNeighborsRecurse m flt c r st = st" by (rule getNeighborsRecurse_negative)
      with "1.prems" show ?thesis by (simp only:)
    next
      case True
      let ?P = "\<lambda>s. \<forall>a \<in> set (coordList s). getTile m a \<noteq> None"
      let ?f = "(\<lambda>coord s. if expandable (rangeMap s) (pos m coord) r
                    then getNeighborsRecurse m flt coord (r - 1) s else s)"
      have v: "?P (visit m flt tile c r st)"
        using "1.prems" Some by (auto simp: visit_def)
      have "?P (fold ?f (getAdjacentCoords c) (visit m flt tile c r st))"
      proof (rule fold_invariant [where P = ?P, OF v])
        fix a and s :: NState assume a: "a \<in> set (getAdjacentCoords c)" and s: "?P s"
        show "?P (?f a s)"
        proof (cases "expandable (rangeMap s) (pos m a) r")
          case ex: True
          from "1.IH" [OF Some True a ex s] ex show ?thesis by (simp only: if_True)
        next
          case ex: False
          with s show ?thesis by (simp only: if_False)
        qed
      qed
      then show ?thesis by (simp only: getNeighborsRecurse_Some [OF Some True])
    qed
  qed
qed

lemma getNeighborsCoords_tiles:
  "a \<in> set (getNeighborsCoords m c r flt) \<Longrightarrow> getTile m a \<noteq> None"
  using getNeighborsRecurse_tiles [of "\<lparr>tileSet = [], coordList = [], rangeMap = Map.empty\<rparr>" m flt c r]
  by (simp add: getNeighborsCoords_def)

function pathLoop :: "Map \<Rightarrow> nat \<Rightarrow> MovementClass \<Rightarrow> PState \<Rightarrow> PState option" where
  "pathLoop m range' mode st =
     (case queue st of
        [] \<Rightarrow> Some st
      | atPos # rest \<Rightarrow>
          (case forEach (relax m range' mode atPos) (getNeighborsCoords m atPos 1 None)
                  (st\<lparr>queue := rest\<rparr>) of
             None \<Rightarrow> None
           | Some st' \<Rightarrow> pathLoop m range' mode st'))"
  by pat_completeness auto
termination
proof (relation "measure (\<lambda>(m, range', mode, st). potential m range' st)")
  show "wf (measure (\<lambda>(m, range', mode, st). potential m range' st))" by simp
next
  fix m range' mode st atPos rest st'
  assume q: "queue st = atPos # rest"
    and f: "forEach (relax m range' mode atPos) (getNeighborsCoords m atPos 1 None) (st\<lparr>queue := rest\<rparr>) = Some st'"
  from forEach_potential [OF f] getNeighborsCoords_tiles
  have "potential m range' st' \<le> potential m range' (st\<lparr>queue := rest\<rparr>)" by blast
  also have "\<dots> < potential m range' st" using q by (simp add: potential_def)
  finally show "((m, range', mode, st'), (m, range', mode, st)) \<in> measure (\<lambda>(m, range', mode, st). potential m range' st)"
    by simp
qed

declare pathLoop.simps [simp del]

definition getPathTree :: "Map \<Rightarrow> Coords \<Rightarrow> nat \<Rightarrow> MovementClass \<Rightarrow> ((int \<rightharpoonup> Coords) \<times> (int \<rightharpoonup> enat)) option" where
  "getPathTree m srcPos range' mode =
     map_option (\<lambda>st. (paths st, dst st))
       (pathLoop m range' mode \<lparr>queue = [srcPos], dst = [pos m srcPos \<mapsto> 0], paths = Map.empty\<rparr>)"

partial_function (option) findPath :: "Map \<Rightarrow> (int \<rightharpoonup> Coords) \<Rightarrow> int \<Rightarrow> Coords \<Rightarrow> Coords list option option" where
  "findPath m pathTree srcPosKey target =
     (case pathTree srcPosKey of
        Some parent \<Rightarrow>
          if pos m parent = pos m target then Some (Some [target])
          else Option.bind (findPath m pathTree (pos m parent) target)
                 (\<lambda>subPath. case subPath of
                      None \<Rightarrow> Some None
                    | Some sp \<Rightarrow> Some (Some (parent # sp)))
      | None \<Rightarrow> Some None)"

declare findPath.simps [code]

definition coordsOf :: "Map \<Rightarrow> int \<Rightarrow> Coords" where
  "coordsOf m p = \<lparr>x = mod_u p (width m), y = p div width m\<rparr>"

definition tileRef :: "Map \<Rightarrow> Coords \<Rightarrow> int option" where
  "tileRef m c = (if getTile m c = None then None else Some (pos m c))"

definition findRoute :: "Map \<Rightarrow> (int \<rightharpoonup> Coords) \<Rightarrow> (int \<rightharpoonup> enat) \<Rightarrow> int \<Rightarrow> Coords \<Rightarrow> (Coords list \<times> enat option) option option" where
  "findRoute m pathTree dst' srcPosKey target =
     (let srcCoords = coordsOf m srcPosKey
      in case findPath m pathTree srcPosKey target of
           None \<Rightarrow> None
         | Some None \<Rightarrow> Some None
         | Some (Some path) \<Rightarrow>
             (let fullPath = srcCoords # path
              in if \<not> (tileRef m srcCoords = tileRef m (hd fullPath)
                       \<and> tileRef m target = tileRef m (last path))
                 then Some None
                 else Some (Some (fullPath, dst' srcPosKey))))"

subsection \<open>Predicates of the path search\<close>




subsection \<open>ResourceStore and Trader\<close>

text \<open>
  Modelled from the spec: the methods of Yield and ResourceStore (yield.ts) are not
  under src/. The spec: addition and per-element min are defined on a Yield and
  subtraction saturates at zero; on a ResourceStore \<^verbatim>\<open>incr\<close> adds, \<^verbatim>\<open>cap\<close> clamps
  to capacity, \<^verbatim>\<open>fulfills(cost)\<close> is componentwise \<open>\<ge>\<close> and \<^verbatim>\<open>divNumber(n)\<close> is the
  per-key floor division.
\<close>

definition incr_Yield :: "Yield \<Rightarrow> Yield \<Rightarrow> Yield" where
  "incr_Yield a v = \<lparr>food = food a + food v, production = production a + production v\<rparr>"

definition decr_Yield :: "Yield \<Rightarrow> Yield \<Rightarrow> Yield" where
  "decr_Yield a v = \<lparr>food = food a - food v, production = production a - production v\<rparr>"

definition incr :: "ResourceStore \<Rightarrow> Yield \<Rightarrow> ResourceStore" where
  "incr s v = s\<lparr>stored := incr_Yield (stored s) v\<rparr>"

definition decr :: "ResourceStore \<Rightarrow> Yield \<Rightarrow> ResourceStore" where
  "decr s v = s\<lparr>stored := decr_Yield (stored s) v\<rparr>"

definition fulfills :: "ResourceStore \<Rightarrow> Yield \<Rightarrow> bool" where
  "fulfills s c = (food (stored s) \<ge> food c \<and> production (stored s) \<ge> production c)"

definition divNumber :: "ResourceStore \<Rightarrow> nat \<Rightarrow> Yield" where
  "divNumber s n = \<lparr>food = food (stored s) div n, production = production (stored s) div n\<rparr>"

definition setCapacity :: "ResourceStore \<Rightarrow> Yield \<Rightarrow> ResourceStore" where
  "setCapacity s c = s\<lparr>capacity := c\<rparr>"

definition min_Yield :: "Yield \<Rightarrow> Yield \<Rightarrow> Yield" where
  "min_Yield a b = \<lparr>food = min (food a) (food b), production = min (production a) (production b)\<rparr>"

definition cap :: "ResourceStore \<Rightarrow> ResourceStore" where
  "cap s = s\<lparr>stored := min_Yield (stored s) (capacity s)\<rparr>"

text \<open>
  Modelled from the spec: the methods of Trader (trade.ts) are not under src/. The spec:
  \<^verbatim>\<open>store(share)\<close> attempts to load up to capacity minus carried and returns the
  overflow; a trader that expires has \<^verbatim>\<open>expired\<close> set.
\<close>

definition t_store :: "Trader \<Rightarrow> Yield \<Rightarrow> Trader \<times> Yield" where
  "t_store t share =
     (let room = decr_Yield (t_capacity t) (carried t);
          loaded = min_Yield share room
      in (t\<lparr>carried := incr_Yield (carried t) loaded\<rparr>, decr_Yield share loaded))"

definition expire :: "Trader \<Rightarrow> Trader" where
  "expire t = t\<lparr>expired := True\<rparr>"

subsection \<open>Improvement.work (src/server/game.ts)\<close>

text \<open>
  The loop over \<^verbatim>\<open>this.traders\<close>: an expired trader is spliced out, every other one
  gets \<^verbatim>\<open>storage.divNumber(traderCount)\<close>, and \<^verbatim>\<open>traderCount\<close> goes down by one
  either way (it is at least 1 whenever it divides). \<open>kept\<close> collects the traders
  that stay subscribed.
\<close>

fun workTraders :: "Trader list \<Rightarrow> ResourceStore \<Rightarrow> nat \<Rightarrow> nat list \<Rightarrow> nat list \<Rightarrow> Trader list \<times> ResourceStore \<times> nat list" where
  "workTraders heap s traderCount [] kept = (heap, s, rev kept)"
| "workTraders heap s traderCount (i # is) kept =
     (if expired (heap ! i) then workTraders heap s (traderCount - 1) is kept
      else
        (let traderShare = divNumber s traderCount;
             (trader', surplus) = t_store (heap ! i) traderShare
         in workTraders (heap[i := trader']) (decr s (decr_Yield traderShare surplus))
              (traderCount - 1) is (i # kept)))"

text \<open>
  \<^verbatim>\<open>work()\<close> as in game.ts; the compiled improvement.js differs only in calling
  \<^verbatim>\<open>this.storage.incr(this.yield)\<close> where game.ts calls \<^verbatim>\<open>this.store(this.yield)\<close>.
  Both end with \<^verbatim>\<open>this.storage.cap()\<close>. \<^verbatim>\<open>storeCapTable\<close> has no entry for some
  types (a worksite among them); the restored capacity is then the empty one.
\<close>

definition store :: "Improvement \<Rightarrow> Yield \<Rightarrow> Improvement" where
  "store i resources =
     i\<lparr>storage := incr (storage i) resources,
       errand := map_option (\<lambda>e. e\<lparr>storedThisTurn := incr_Yield (storedThisTurn e) resources\<rparr>) (errand i)\<rparr>"

definition work :: "Trader list \<Rightarrow> Improvement \<Rightarrow> Trader list \<times> Improvement" where
  "work heap i =
     (let (heap1, i1) =
            (case errand i of
               None \<Rightarrow> (heap, i)
             | Some e \<Rightarrow>
                 (if fulfills (storage i) (cost e) then
                    (fold (\<lambda>s h. h[s := expire (h ! s)]) (suppliers i) heap,
                     i\<lparr>storage := setCapacity (decr (storage i) (cost e))
                                    (case storeCapTable (i_type i) of Some c \<Rightarrow> c | None \<Rightarrow> emptyYield),
                       errand := Some (e\<lparr>completed := True, storedThisTurn := emptyYield\<rparr>)\<rparr>)
                  else (heap, i\<lparr>errand := Some (e\<lparr>storedThisTurn := emptyYield\<rparr>)\<rparr>)));
          (heap2, s2, kept) = workTraders heap1 (storage i1) (length (i_traders i1)) (i_traders i1) [];
          i2 = store (i1\<lparr>storage := s2, i_traders := kept\<rparr>) (i_yield i1)
      in (heap2, i2\<lparr>storage := cap (storage i2)\<rparr>))"

subsection \<open>Errands and trade routes\<close>

text \<open>
  The code of this repository that the handlers below call and that is not under src/
  is a parameter of the model, one field each: \<^verbatim>\<open>Tile.getTrainableUnitTypes\<close>,
  \<^verbatim>\<open>Knowledge.getKnowledgeList\<close> (name and branch of every knowledge),
  \<^verbatim>\<open>WorkErrand.errandCostTable\<close>, \<^verbatim>\<open>Tile.canSupply\<close>, \<^verbatim>\<open>Tile.getKnowledges\<close>,
  \<^verbatim>\<open>Tile.getKnowledgeSpillover\<close> (name to [spilloverPoints, maxPoints], in key
  order), \<^verbatim>\<open>Tile.addKnowledge\<close>, \<^verbatim>\<open>WorkErrand.complete\<close> (its effect on the map, for
  the tile in the given slot) and \<^verbatim>\<open>Trader.shunt\<close> (its effect on the map, for the
  trader of the given index). The four branch names are the ones game.ts mentions.
\<close>

datatype KnowledgeBranch = OFFENSE | DEFESNSE | CIVICS | DEVELOPMENT

record Env =
  getTrainableUnitTypes :: "Tile \<Rightarrow> string list"
  getKnowledgeList :: "(string \<times> KnowledgeBranch) list"
  errandCostTable :: "ErrandType \<Rightarrow> string \<Rightarrow> Yield"
  canSupply :: "Tile \<Rightarrow> Yield \<Rightarrow> bool"
  getKnowledges :: "Tile \<Rightarrow> bool \<Rightarrow> string list"
  getKnowledgeSpillover :: "Tile \<Rightarrow> (string \<times> rat \<times> rat) list"
  addKnowledge :: "Tile \<Rightarrow> string \<Rightarrow> rat \<Rightarrow> rat \<Rightarrow> rat \<Rightarrow> Tile"
  complete :: "WorkErrand \<Rightarrow> Map \<Rightarrow> int \<Rightarrow> Map"
  shunt :: "nat \<Rightarrow> Map \<Rightarrow> Map"

definition researchableKnowledgeBranchTable :: "string \<rightharpoonup> KnowledgeBranch list" where
  "researchableKnowledgeBranchTable = [''campus'' \<mapsto> [OFFENSE, DEFESNSE, CIVICS, DEVELOPMENT]]"

definition getResearchableKnowledgeBranches :: "Improvement \<Rightarrow> KnowledgeBranch list" where
  "getResearchableKnowledgeBranches i =
     (case researchableKnowledgeBranchTable (i_type i) of Some bs \<Rightarrow> bs | None \<Rightarrow> [])"

definition getResearchableKnowledgeNames :: "Env \<Rightarrow> Improvement \<Rightarrow> string list" where
  "getResearchableKnowledgeNames env i =
     map fst (filter (\<lambda>(n, branch). branch \<in> set (getResearchableKnowledgeBranches i)) (getKnowledgeList env))"

text \<open>
  Modelled from the spec: \<^verbatim>\<open>class WorkErrand\<close> (errand.ts) is not under src/. The spec:
  an errand has its type, its option, a cost, \<^verbatim>\<open>storedThisTurn\<close>, \<^verbatim>\<open>completed\<close> and
  an optional location; it shares the host improvement's store, whose capacity is
  raised to the cost while the errand is live.
\<close>

definition newWorkErrand :: "Env \<Rightarrow> ErrandAction \<Rightarrow> WorkErrand" where
  "newWorkErrand env a = \<lparr>e_type = a_type a, e_option = a_option a,
     cost = errandCostTable env (a_type a) (a_option a), storedThisTurn = emptyYield,
     completed = False, e_location = a_location a\<rparr>"

definition startErrand :: "Env \<Rightarrow> Improvement \<Rightarrow> ErrandAction \<Rightarrow> Improvement" where
  "startErrand env i a =
     (let e = newWorkErrand env a
      in i\<lparr>errand := Some e, storage := setCapacity (storage i) (cost e)\<rparr>)"

text \<open>
  \<^verbatim>\<open>startErrandAt(coords, improvement, errand)\<close>; the improvement is the one of the
  tile at \<open>coords\<close>, which takes the changed improvement.
\<close>

definition startErrandAt :: "Env \<Rightarrow> Map \<Rightarrow> Coords \<Rightarrow> Tile \<Rightarrow> Improvement \<Rightarrow> ErrandAction \<Rightarrow> Map" where
  "startErrandAt env m c tile i a =
     tileUpdate (putTile m c (tile\<lparr>improvement := Some (startErrand env i a)\<rparr>)) c"

definition TRADER_SPEED :: nat where
  "TRADER_SPEED = 1"

definition TRADER_CAPACITY :: Yield where
  "TRADER_CAPACITY = \<lparr>food = 10, production = 10\<rparr>"

definition subscribeTrader :: "Improvement \<Rightarrow> nat \<Rightarrow> Improvement" where
  "subscribeTrader i t = i\<lparr>i_traders := i_traders i @ [t]\<rparr>"

definition subscribeSupplier :: "Improvement \<Rightarrow> nat \<Rightarrow> Improvement" where
  "subscribeSupplier i t = i\<lparr>suppliers := suppliers i @ [t]\<rparr>"

text \<open>\<^verbatim>\<open>this.tiles[pos]\<close>, and a change of the improvement of the tile in a slot.\<close>

definition atSlot :: "Map \<Rightarrow> int \<Rightarrow> Tile option" where
  "atSlot m p = (if 0 \<le> p \<and> p < int (length (tiles m)) then tiles m ! nat p else None)"

definition onImprovement :: "Map \<Rightarrow> int \<Rightarrow> (Improvement \<Rightarrow> Improvement) \<Rightarrow> Map" where
  "onImprovement m p f =
     (case atSlot m p of
        None \<Rightarrow> m
      | Some t \<Rightarrow> m\<lparr>tiles := (tiles m)[nat p := Some (t\<lparr>improvement := map_option f (improvement t)\<rparr>)]\<rparr>)"

text \<open>
  Modelled from the spec: the constructor of Trader is not under src/. The spec: a
  trader is created by \<^verbatim>\<open>createTradeRoutes\<close> with nothing carried and not expired; an
  improvement has two subscriber lists, traders (consumers of its output) and suppliers
  (producers whose output flows in), so the new trader joins the traders of its
  producer (\<^verbatim>\<open>subscribeTrader\<close>) and the suppliers of its sink
  (\<^verbatim>\<open>subscribeSupplier\<close>).
\<close>

definition newTrader :: "nat \<Rightarrow> (Coords list \<times> enat option) \<Rightarrow> int \<Rightarrow> int \<Rightarrow> nat \<Rightarrow> Yield \<Rightarrow> Map \<Rightarrow> Map \<times> nat" where
  "newTrader civID r src snk spd cp m =
     (let t = length (traderHeap m);
          m1 = m\<lparr>traderHeap := traderHeap m @
                 [\<lparr>t_civID = civID, route = r, source = src, sink = snk, speed = spd,
                   t_capacity = cp, carried = emptyYield, expired = False\<rparr>]\<rparr>
      in (onImprovement (onImprovement m1 src (\<lambda>i. subscribeTrader i t)) snk (\<lambda>i. subscribeSupplier i t), t))"

definition addTrader :: "Map \<Rightarrow> nat \<Rightarrow> Map" where
  "addTrader m t = m\<lparr>traders := traders m @ [t]\<rparr>"

text \<open>
  \<^verbatim>\<open>Object.keys(dst)\<close>: the slots in ascending order, then the key of the source when
  it is no slot. The comparator of the sort returns -1 for equal distances, which
  leaves their order to the engine; the model sorts stably.
\<close>

definition objectKeys :: "Map \<Rightarrow> Coords \<Rightarrow> (int \<rightharpoonup> enat) \<Rightarrow> int list" where
  "objectKeys m c dst' =
     filter (\<lambda>p. dst' p \<noteq> None) (map int [0 ..< length (tiles m)])
     @ (if 0 \<le> pos m c \<and> pos m c < int (length (tiles m)) then [] else [pos m c])"

text \<open>
  One iteration of the loop of \<^verbatim>\<open>createTradeRoutes\<close>. \<open>None\<close>: \<^verbatim>\<open>this.tiles[pos]\<close>
  is undefined and \<^verbatim>\<open>tile.owner\<close> throws, or \<^verbatim>\<open>findPath\<close> does not return.
\<close>

definition tradeRouteStep ::
  "Env \<Rightarrow> nat \<Rightarrow> Coords \<Rightarrow> Yield \<Rightarrow> (int \<rightharpoonup> Coords) \<Rightarrow> (int \<rightharpoonup> enat) \<Rightarrow> int \<Rightarrow> Map \<Rightarrow> Map option" where
  "tradeRouteStep env civID c requirement pathTree dst' p m =
     (case atSlot m p of
        None \<Rightarrow> None
      | Some tile \<Rightarrow>
          if ownerCivID m tile = Some civID \<and> canSupply env tile requirement then
            (case findRoute m pathTree dst' p c of
               None \<Rightarrow> None
             | Some None \<Rightarrow> Some m
             | Some (Some r) \<Rightarrow>
                 (let (m1, t) = newTrader civID r p (pos m c) TRADER_SPEED
                                  (min_Yield TRADER_CAPACITY requirement) m
                  in Some (addTrader m1 t)))
          else Some m)"

definition createTradeRoutes :: "Env \<Rightarrow> Map \<Rightarrow> nat \<Rightarrow> Coords \<Rightarrow> Yield \<Rightarrow> nat \<Rightarrow> MovementClass \<Rightarrow> Map option" where
  "createTradeRoutes env m civID c requirement range' mode =
     (case getPathTree m c range' mode of
        None \<Rightarrow> None
      | Some (pathTree, dst') \<Rightarrow>
          forEach (tradeRouteStep env civID c requirement pathTree dst')
            (sort_key (\<lambda>p. case dst' p of Some d \<Rightarrow> d | None \<Rightarrow> 0) (objectKeys m c dst')) m)"

text \<open>
  The three handlers that start an errand. \<^verbatim>\<open>createTradeRoutes\<close> is called with its
  defaults \<^verbatim>\<open>range = 5\<close> and \<^verbatim>\<open>mode = 0\<close> (LAND).
\<close>

definition startConstructionAt :: "Env \<Rightarrow> Map \<Rightarrow> Coords \<Rightarrow> string \<Rightarrow> nat \<Rightarrow> Map option" where
  "startConstructionAt env m c improvementType ownerID =
     (case getTile m c of
        None \<Rightarrow> None
      | Some tile \<Rightarrow>
          if ownerCivID m tile \<noteq> Some ownerID then Some m
          else
            (let i = newImprovement ''worksite'' (baseYield tile);
                 tile1 = tile\<lparr>improvement := Some i\<rparr>;
                 a = \<lparr>a_type = CONSTRUCTION, a_option = improvementType, a_location = None\<rparr>;
                 m1 = startErrandAt env (putTile m c tile1) c tile1 i a
             in map_option (\<lambda>m2. tileUpdate m2 c)
                  (createTradeRoutes env m1 ownerID c (cost (newWorkErrand env a)) 5 LAND)))"

definition trainUnitAt :: "Env \<Rightarrow> Map \<Rightarrow> Coords \<Rightarrow> string \<Rightarrow> nat \<Rightarrow> Map option" where
  "trainUnitAt env m c unitType ownerID =
     (case getTile m c of
        None \<Rightarrow> None
      | Some tile \<Rightarrow>
          map_option (\<lambda>m'. tileUpdate m' c)
            (case (if ownerCivID m tile = Some ownerID then improvement tile else None) of
               None \<Rightarrow> Some m
             | Some i \<Rightarrow>
                 if unitType \<in> set (getTrainableUnitTypes env tile) then
                   (if errand i = None then
                      (let a = \<lparr>a_type = UNIT_TRAINING, a_option = unitType, a_location = Some c\<rparr>
                       in createTradeRoutes env (startErrandAt env m c tile i a) ownerID c
                            (cost (newWorkErrand env a)) 5 LAND)
                    else Some m)
                 else Some m))"

definition researchKnowledgeAt :: "Env \<Rightarrow> Map \<Rightarrow> Coords \<Rightarrow> string \<Rightarrow> nat \<Rightarrow> Map option" where
  "researchKnowledgeAt env m c knowledgeName ownerID =
     (case getTile m c of
        None \<Rightarrow> None
      | Some tile \<Rightarrow>
          map_option (\<lambda>m'. tileUpdate m' c)
            (case (if ownerCivID m tile = Some ownerID then improvement tile else None) of
               None \<Rightarrow> Some m
             | Some i \<Rightarrow>
                 if knowledgeName \<in> set (getResearchableKnowledgeNames env i) then
                   (if errand i = None then
                      (let a = \<lparr>a_type = RESEARCH, a_option = knowledgeName, a_location = Some c\<rparr>
                       in createTradeRoutes env (startErrandAt env m c tile i a) ownerID c
                            (cost (newWorkErrand env a)) 5 LAND)
                    else Some m)
                 else Some m))"

subsection \<open>Map.turn\<close>

text \<open>
  A call \<^verbatim>\<open>getTile(neighborCoords).addKnowledge(k, spilloverPoints, 0.1, maxPoints)\<close>
  is recorded with its target and arguments; the turn returns the calls it made next to
  the map.
\<close>

record AddKnowledgeCall =
  target :: Coords
  k_name :: string
  spilloverPoints :: rat
  factor :: rat
  maxPoints :: rat

definition addKnowledgeAt :: "Env \<Rightarrow> string \<Rightarrow> rat \<Rightarrow> rat \<Rightarrow> Coords \<Rightarrow> Map \<times> AddKnowledgeCall list \<Rightarrow> (Map \<times> AddKnowledgeCall list) option" where
  "addKnowledgeAt env n pts mx neighborCoords s =
     (case getTile (fst s) neighborCoords of
        None \<Rightarrow> None
      | Some t \<Rightarrow>
          Some (putTile (fst s) neighborCoords (addKnowledge env t n pts (1 / 10) mx),
                snd s @ [\<lparr>target = neighborCoords, k_name = n, spilloverPoints = pts,
                          factor = 1 / 10, maxPoints = mx\<rparr>]))"

definition spilloverEntry :: "Env \<Rightarrow> Coords \<Rightarrow> string \<times> rat \<times> rat \<Rightarrow> Map \<times> AddKnowledgeCall list \<Rightarrow> (Map \<times> AddKnowledgeCall list) option" where
  "spilloverEntry env c entry s =
     (case entry of (n, pts, mx) \<Rightarrow>
        forEach (addKnowledgeAt env n pts mx) (getNeighborsCoords (fst s) c 1 None) s)"

definition spillover :: "Env \<Rightarrow> int \<Rightarrow> Map \<times> AddKnowledgeCall list \<Rightarrow> (Map \<times> AddKnowledgeCall list) option" where
  "spillover env p s =
     (case atSlot (fst s) p of
        None \<Rightarrow> None
      | Some tile \<Rightarrow>
          if getKnowledges env tile False \<noteq> [] then
            forEach (spilloverEntry env (coordsOf (fst s) p)) (getKnowledgeSpillover env tile) s
          else Some s)"

text \<open>
  The first half of the callback of \<^verbatim>\<open>forEachTile\<close>: \<^verbatim>\<open>work()\<close>, and for a completed
  errand \<^verbatim>\<open>complete\<close> and \<^verbatim>\<open>delete tile.improvement.errand\<close>.
\<close>

definition workTile :: "Env \<Rightarrow> int \<Rightarrow> Map \<Rightarrow> Map option" where
  "workTile env p m =
     (case atSlot m p of
        None \<Rightarrow> None
      | Some tile \<Rightarrow>
          (case improvement tile of
             None \<Rightarrow> Some m
           | Some i \<Rightarrow>
               (let (heap', i') = work (traderHeap m) i;
                    m1 = m\<lparr>traderHeap := heap',
                           tiles := (tiles m)[nat p := Some (tile\<lparr>improvement := Some i'\<rparr>)]\<rparr>
                in case errand i' of
                     None \<Rightarrow> Some m1
                   | Some e \<Rightarrow>
                       if completed e then
                         (let m2 = complete env e m1 p
                          in case atSlot m2 p of
                               None \<Rightarrow> None
                             | Some t2 \<Rightarrow>
                                 (case improvement t2 of
                                    None \<Rightarrow> None
                                  | Some i2 \<Rightarrow> Some (onImprovement m2 p (\<lambda>i. i\<lparr>errand := None\<rparr>))))
                       else Some m1)))"

definition turnTile :: "Env \<Rightarrow> nat \<Rightarrow> Map \<times> AddKnowledgeCall list \<Rightarrow> (Map \<times> AddKnowledgeCall list) option" where
  "turnTile env p s =
     (case workTile env (int p) (fst s) of
        None \<Rightarrow> None
      | Some m1 \<Rightarrow> spillover env (int p) (m1, snd s))"

text \<open>The loop over \<^verbatim>\<open>this.traders\<close>: \<^verbatim>\<open>shunt\<close>, then an expired trader is spliced out.\<close>

fun turnTraders :: "Env \<Rightarrow> nat list \<Rightarrow> nat list \<Rightarrow> Map \<Rightarrow> Map" where
  "turnTraders env [] kept m = m\<lparr>traders := rev kept\<rparr>"
| "turnTraders env (t # ts) kept m =
     (let m' = shunt env t m
      in if t < length (traderHeap m') \<and> expired (traderHeap m' ! t)
         then turnTraders env ts kept m'
         else turnTraders env ts (t # kept) m')"

definition turn :: "Env \<Rightarrow> Map \<Rightarrow> (Map \<times> AddKnowledgeCall list) option" where
  "turn env m =
     map_option (\<lambda>s. (turnTraders env (traders (fst s)) [] (fst s), snd s))
       (forEach (turnTile env) [0 ..< length (tiles m)] (m, []))"

subsection \<open>Line of sight and moving\<close>

text \<open>
  Modelled from the spec: \<^verbatim>\<open>Tile.getTotalElevation\<close> is not under src/. The spec: the
  elevation of a tile is the tile height plus the improvement height.
\<close>

definition getTotalElevation :: "Tile \<Rightarrow> int" where
  "getTotalElevation t =
     elevation t + (case improvement t of
                      None \<Rightarrow> 0
                    | Some i \<Rightarrow> (case improvementHeightTable (i_type i) of Some h \<Rightarrow> h | None \<Rightarrow> 0))"

text \<open>
  \<^verbatim>\<open>getVisibleTilesRecurse\<close>: \<^verbatim>\<open>coordsArray\<close> and \<^verbatim>\<open>tileSet\<close> (the slots seen).
  The three rays of a spread differ only in the direction of the next step. \<open>None\<close>:
  \<^verbatim>\<open>getTotalElevation\<close> is called on an undefined tile, north or south of the map.
\<close>

record VState =
  coordsArray :: "Coords list"
  seen :: "int list"

lemma forEach_cong [fundef_cong]:
  "xs = ys \<Longrightarrow> s = t \<Longrightarrow> (\<And>a s'. a \<in> set ys \<Longrightarrow> f a s' = g a s') \<Longrightarrow> forEach f xs s = forEach g ys t"
proof (induction ys arbitrary: xs s t)
  case Nil
  then show ?case by simp
next
  case (Cons a ys)
  then show ?case by (auto split: option.splits)
qed

function getVisibleTilesRecurse ::
  "Map \<Rightarrow> Coords \<Rightarrow> int \<Rightarrow> int \<Rightarrow> int \<Rightarrow> int \<Rightarrow> VState \<Rightarrow> int \<Rightarrow> int \<Rightarrow> VState option" where
  "getVisibleTilesRecurse m c maxElevation slope r direction st stepsUntilSpread stepLength =
     (if r > 0 then
        (case getTile m c of
           None \<Rightarrow> None
         | Some tile \<Rightarrow>
             (let st1 = (if pos m c \<notin> set (seen st) \<and> getTotalElevation tile \<ge> maxElevation
                         then st\<lparr>coordsArray := coordsArray st @ [c], seen := pos m c # seen st\<rparr>
                         else st)
              in if stepsUntilSpread = 0 then
                   forEach (\<lambda>d s.
                       (case getTile m (getCoordInDirection c d) of
                          None \<Rightarrow> None
                        | Some nextTile \<Rightarrow>
                            getVisibleTilesRecurse m (getCoordInDirection c d) (maxElevation + slope)
                              (max slope (getTotalElevation nextTile - maxElevation))
                              (r - 1) direction s stepLength stepLength))
                     [direction - 1, direction, direction + 1] st1
                 else
                   (case getTile m (getCoordInDirection c direction) of
                      None \<Rightarrow> None
                    | Some nextTile \<Rightarrow>
                        getVisibleTilesRecurse m (getCoordInDirection c direction) (maxElevation + slope)
                          (max slope (getTotalElevation nextTile - maxElevation))
                          (r - 1) direction st1 (stepsUntilSpread - 1) stepLength)))
      else Some st)"
  by pat_completeness auto
termination
  by (relation "measure (\<lambda>(m, c, maxElevation, slope, r, direction, st, stepsUntilSpread, stepLength). nat r)") auto

declare getVisibleTilesRecurse.simps [simp del]

definition getVisibleTilesCoords :: "Map \<Rightarrow> Unit \<Rightarrow> int option \<Rightarrow> Coords list option" where
  "getVisibleTilesCoords m u range' =
     (case getTile m (coords u) of
        None \<Rightarrow> None
      | Some tile \<Rightarrow>
          map_option coordsArray
            (forEach (\<lambda>direction s.
                (case getTile m (getCoordInDirection (coords u) direction) of
                   None \<Rightarrow> None
                 | Some nextTile \<Rightarrow>
                     (let slope = getTotalElevation nextTile - getTotalElevation tile
                      in getVisibleTilesRecurse m (getCoordInDirection (coords u) direction)
                           (getTotalElevation tile + slope) slope
                           (case range' of Some r \<Rightarrow> r | None \<Rightarrow> visionRange u)
                           direction s 0 1)))
               [0, 1, 2, 3, 4, 5]
               \<lparr>coordsArray = [coords u], seen = [pos m (coords u)]\<rparr>))"

text \<open>\<^verbatim>\<open>setTileVisibility(civID, coords, visible)\<close> and \<^verbatim>\<open>moveUnitTo(unit, coords)\<close>.\<close>

definition setTileVisibility :: "nat \<Rightarrow> bool \<Rightarrow> Coords \<Rightarrow> Map \<Rightarrow> Map option" where
  "setTileVisibility civID visible c m =
     (case getTile m c of
        None \<Rightarrow> None
      | Some t \<Rightarrow> Some (tileUpdate (putTile m c (setVisibility t civID visible)) c))"

definition moveUnitTo :: "Map \<Rightarrow> Unit \<Rightarrow> Coords \<Rightarrow> (Map \<times> Unit) option" where
  "moveUnitTo m u c =
     (case getVisibleTilesCoords m u None of
        None \<Rightarrow> None
      | Some srcVisible \<Rightarrow>
          (case forEach (setTileVisibility (u_civID u) False) srcVisible m of
             None \<Rightarrow> None
           | Some m1 \<Rightarrow>
               (case getTile m1 (coords u) of
                  None \<Rightarrow> None
                | Some t0 \<Rightarrow>
                    (let m2 = tileUpdate (putTile m1 (coords u) (setUnit t0 None)) (coords u);
                         u' = u\<lparr>coords := c\<rparr>
                     in case getTile m2 c of
                          None \<Rightarrow> None
                        | Some t1 \<Rightarrow>
                            (let m3 = tileUpdate (putTile m2 c (setUnit t1 (Some u'))) c
                             in case getVisibleTilesCoords m3 u' None of
                                  None \<Rightarrow> None
                                | Some newVisible \<Rightarrow>
                                    map_option (\<lambda>m4. (m4, u'))
                                      (forEach (setTileVisibility (u_civID u') True) newVisible m3))))))"

text \<open>
  \<^verbatim>\<open>updateCivTileVisibility(civID)\<close> of dist/server/game.js: every tile is cleared for
  the civ, then every unit of the civ lights the tiles within 3 steps. The units of the
  civ are a parameter; \<^verbatim>\<open>map.getNeighbors(x, y, 3)\<close> is the older form of
  \<^verbatim>\<open>getNeighborsCoords\<close> that returns the tiles. \<open>None\<close>: a slot is empty.
\<close>

definition clearAll :: "nat \<Rightarrow> Tile option list \<Rightarrow> Tile option list option" where
  "clearAll civID ts =
     (if list_ex Option.is_none ts then None
      else Some (map (map_option (\<lambda>t. clearVisibility t civID)) ts))"

definition lightOn :: "nat \<Rightarrow> Coords \<Rightarrow> Map \<Rightarrow> Map option" where
  "lightOn civID c m =
     (case getTile m c of
        None \<Rightarrow> None
      | Some t \<Rightarrow> Some (putTile m c (setVisibility t civID True)))"

definition updateCivTileVisibility :: "Map \<Rightarrow> nat \<Rightarrow> Unit list \<Rightarrow> Map option" where
  "updateCivTileVisibility m civID units =
     (case clearAll civID (tiles m) of
        None \<Rightarrow> None
      | Some ts \<Rightarrow>
          forEach (\<lambda>u m'. forEach (lightOn civID) (getNeighborsCoords m' (coords u) 3 None) m')
            units (m\<lparr>tiles := ts\<rparr>))"

subsection \<open>Predicates of the turn\<close>

text \<open>
  Two maps have the same shape when they have the same width and the same slots hold a
  tile. \<open>callOf\<close> is the record of one \<^verbatim>\<open>addKnowledge\<close> call of the turn.
\<close>

definition sameShape :: "Map \<Rightarrow> Map \<Rightarrow> bool" where
  "sameShape m m' = (width m' = width m \<and> (\<forall>c. (getTile m' c = None) = (getTile m c = None)))"

definition callOf :: "string \<Rightarrow> rat \<Rightarrow> rat \<Rightarrow> Coords \<Rightarrow> AddKnowledgeCall" where
  "callOf n pts mx nc = \<lparr>target = nc, k_name = n, spilloverPoints = pts, factor = 1 / 10, maxPoints = mx\<rparr>"

text \<open>
  The accumulators of \<^verbatim>\<open>getNeighborsRecurse\<close> without a filter agree: every slot with a
  range is in \<^verbatim>\<open>tileSet\<close>, and every slot of \<^verbatim>\<open>tileSet\<close> has a coordinate in
  \<^verbatim>\<open>coordList\<close>.
\<close>

definition indexed :: "Map \<Rightarrow> NState \<Rightarrow> bool" where
  "indexed m s = (dom (rangeMap s) \<subseteq> set (tileSet s) \<and> set (tileSet s) \<subseteq> pos m ` set (coordList s))"

subsection \<open>Predicates of the visibility counters\<close>

text \<open>
  A counter is in order when it has been initialised and is a number that is not negative;
  \<open>undefined\<close> and \<open>NaN\<close> are not. \<open>counterPositive\<close> is the test of a lit tile,
  \<open>visibleTo[civ] > 0\<close>.
\<close>

fun counterOK :: "jsnum option \<Rightarrow> bool" where
  "counterOK (Some (Num n)) = (0 \<le> n)"
| "counterOK (Some NaN) = False"
| "counterOK None = False"

fun counterPositive :: "jsnum option \<Rightarrow> bool" where
  "counterPositive (Some (Num n)) = (1 \<le> n)"
| "counterPositive (Some NaN) = False"
| "counterPositive None = False"

text \<open>\<open>nonneg m civ\<close>: on every tile of the map the counter of \<open>civ\<close> is in order.\<close>

definition nonneg :: "Map \<Rightarrow> nat \<Rightarrow> bool" where
  "nonneg m civ = list_all (\<lambda>t. case t of None \<Rightarrow> True | Some t' \<Rightarrow> counterOK (visibleTo t' civ)) (tiles m)"

text \<open>The counters of one civ, tile by tile, in the order of \<open>Map.tiles\<close>.\<close>

definition counters :: "Map \<Rightarrow> nat \<Rightarrow> jsnum option list" where
  "counters m civ = map (\<lambda>t. case t of None \<Rightarrow> None | Some t' \<Rightarrow> visibleTo t' civ) (tiles m)"

text \<open>
  \<open>countersKept civ m m'\<close>: the two maps have as many slots, and every counter of \<open>civ\<close>
  that is in order in \<open>m\<close> is in order in \<open>m'\<close>, slot by slot.
\<close>

definition countersKept :: "nat \<Rightarrow> Map \<Rightarrow> Map \<Rightarrow> bool" where
  "countersKept civ m m' = (length (tiles m') = length (tiles m)
     \<and> (\<forall>p < length (tiles m). counterOK (counters m civ ! p) \<longrightarrow> counterOK (counters m' civ ! p)))"

text \<open>
  The number of the units of a list whose \<^verbatim>\<open>getNeighbors(x, y, 3)\<close> holds the tile of slot
  \<open>p\<close>: the units whose light reaches the tile when \<^verbatim>\<open>updateCivTileVisibility\<close> lights
  again.
\<close>

definition unitsNear :: "Map \<Rightarrow> Unit list \<Rightarrow> nat \<Rightarrow> nat" where
  "unitsNear m units p = length (filter (\<lambda>u. int p \<in> pos m ` set (getNeighborsCoords m (coords u) 3 None)) units)"

text \<open>
  What \<^verbatim>\<open>moveUnitTo\<close> does to one counter of the civ of the unit: one off when the tile
  was seen from the old position, then one on when it is seen from the new one.
\<close>

definition relit :: "bool \<Rightarrow> bool \<Rightarrow> jsnum option \<Rightarrow> jsnum option" where
  "relit off on n = (let n1 = (if off then Some (decr_js n) else n) in if on then Some (incr_js n1) else n1)"

text \<open>
  Two maps have the same relief when they have the same width and every coordinate
  holds a tile of the same total elevation in both, or none in both. \<open>sighted\<close> is the
  first statement of \<^verbatim>\<open>getVisibleTilesRecurse\<close>, the tile added when it is new and high
  enough.
\<close>

definition sameRelief :: "Map \<Rightarrow> Map \<Rightarrow> bool" where
  "sameRelief m m' = (width m' = width m
     \<and> (\<forall>c. map_option getTotalElevation (getTile m' c) = map_option getTotalElevation (getTile m c)))"

definition sighted :: "Map \<Rightarrow> Coords \<Rightarrow> Tile \<Rightarrow> int \<Rightarrow> VState \<Rightarrow> VState" where
  "sighted m c tile maxElevation st =
     (if pos m c \<notin> set (seen st) \<and> getTotalElevation tile \<ge> maxElevation
      then st\<lparr>coordsArray := coordsArray st @ [c], seen := pos m c # seen st\<rparr>
      else st)"

text \<open>
  The loop invariant of \<open>getVisibleTilesRecurse\<close>: every collected coordinate has its slot in
  \<open>seen\<close>, and no slot is collected twice.
\<close>

definition seenOnce :: "Map \<Rightarrow> VState \<Rightarrow> bool" where
  "seenOnce m st = (set (map (pos m) (coordsArray st)) \<subseteq> set (seen st) \<and> distinct (map (pos m) (coordsArray st)))"

section \<open>Concrete inputs\<close>

text \<open>
  A plains tile as the constructor of tile.js builds it,
  \<^verbatim>\<open>new Tile('plains', 0, new Yield({food: 1}))\<close>: the movement cost of the table, no
  unit, improvement or owner, and \<^verbatim>\<open>discoveredBy\<close> and \<^verbatim>\<open>visibleTo\<close> empty objects.
\<close>

definition plainsTile :: Tile where
  "plainsTile = \<lparr>movementCost = [1, 0], type = ''plains'', unit = None, improvement = None,
     owner = None, discoveredBy = Map.empty, visibleTo = Map.empty,
     baseYield = \<lparr>food = 1, production = 0\<rparr>, elevation = 0\<rparr>"

text \<open>
  The same tile after civ 0 has seen it and left: cleared at the start of civ 0's turn,
  lighted on once, cleared again at the next turn.
\<close>

definition seenTile :: Tile where
  "seenTile = clearVisibility (setVisibility (clearVisibility plainsTile 0) 0 True) 0"

text \<open>... and after one more light-off, issued when the counter is already 0.\<close>

definition overdrawnTile :: Tile where
  "overdrawnTile = setVisibility seenTile 0 False"

text \<open>A map of \<open>h\<close> rows and \<open>w\<close> columns of such tiles, with no city, trader or update.\<close>

definition plainsMap :: "int \<Rightarrow> int \<Rightarrow> Map" where
  "plainsMap h w = \<lparr>height = h, width = w, tiles = replicate (nat (h * w)) (Some plainsTile),
     cities = [], traders = [], traderHeap = [], updates = []\<rparr>"



text \<open>
  Values for the code that is not under src/: a settlement trains settlers, a farm can
  supply, every errand costs 5 food, no tile holds knowledge.
\<close>

definition exampleEnv :: Env where
  "exampleEnv = \<lparr>
     getTrainableUnitTypes = (\<lambda>t. case improvement t of
        None \<Rightarrow> []
      | Some i \<Rightarrow> if i_type i = ''settlement'' then [''settler''] else []),
     getKnowledgeList = [(''scout'', OFFENSE)],
     errandCostTable = (\<lambda>ty opt. \<lparr>food = 5, production = 0\<rparr>),
     canSupply = (\<lambda>t req. case improvement t of None \<Rightarrow> False | Some i \<Rightarrow> i_type i = ''farm''),
     getKnowledges = (\<lambda>t b. []),
     getKnowledgeSpillover = (\<lambda>t. []),
     addKnowledge = (\<lambda>t n p f mx. t),
     complete = (\<lambda>e m p. m),
     shunt = (\<lambda>t m. m)\<rparr>"

text \<open>
  The 3 by 3 map after civ 0 has settled Rome at its centre, and after the settlement
  has started to train a settler.
\<close>

definition settledMap :: Map where
  "settledMap = fst (the (settleCityAt (plainsMap 3 3) \<lparr>x = 1, y = 1\<rparr> ''Rome'' 0))"

definition trainingMap :: Map where
  "trainingMap = the (trainUnitAt exampleEnv settledMap \<lparr>x = 1, y = 1\<rparr> ''settler'' 0)"

text \<open>The same with one knowledge on every tile, spilling 1 point up to 10.\<close>

definition knowEnv :: Env where
  "knowEnv = exampleEnv\<lparr>getKnowledges := (\<lambda>t b. [''scout'']),
     getKnowledgeSpillover := (\<lambda>t. [(''scout'', 1, 10)])\<rparr>"

text \<open>A scout of civ 0 with vision range 1, standing at (0, 3).\<close>

definition scout :: Unit where
  "scout = \<lparr>u_type = ''scout'', u_civID = 0, coords = \<lparr>x = 0, y = 3\<rparr>, visionRange = 1\<rparr>"

text \<open>
  A game on the 3 by 3 map: both civs have their counters rebuilt (neither has a unit yet),
  civ 0 settles Rome at the centre, civ 1 settles Carthage in the corner, the next turn of
  civ 0 begins, and the centre tile is handed over to Carthage.
\<close>

definition clearedMap :: Map where
  "clearedMap = the (updateCivTileVisibility (the (updateCivTileVisibility (plainsMap 3 3) 0 [])) 1 [])"

definition romeMap :: Map where
  "romeMap = fst (the (settleCityAt clearedMap \<lparr>x = 1, y = 1\<rparr> ''Rome'' 0))"

definition carthageMap :: Map where
  "carthageMap = fst (the (settleCityAt romeMap \<lparr>x = 0, y = 0\<rparr> ''Carthage'' 1))"

definition nextTurnMap :: Map where
  "nextTurnMap = the (updateCivTileVisibility carthageMap 0 [])"

definition conqueredMap :: Map where
  "conqueredMap = the (setTileOwner nextTurnMap \<lparr>x = 1, y = 1\<rparr> 1 True)"

text \<open>
  A column of twelve plains tiles whose counters for civ 0 were rebuilt before the scout
  existed, the same after the scout has been placed where it stands, and the column rebuilt
  with the scout among the units.
\<close>

definition columnCleared :: Map where
  "columnCleared = the (updateCivTileVisibility (plainsMap 12 1) 0 [])"

definition columnPlaced :: Map where
  "columnPlaced = fst (the (moveUnitTo columnCleared scout \<lparr>x = 0, y = 3\<rparr>))"

definition columnLit :: Map where
  "columnLit = the (updateCivTileVisibility (plainsMap 12 1) 0 [scout])"

section \<open>Properties\<close>

subsection \<open>Tile counters and snapshots\<close>

lemma plainsTile_cost: "tileMovementCostTable (type plainsTile) = Some (movementCost plainsTile)"
  by (simp add: tileMovementCostTable_def plainsTile_def)

lemma seenTile_counter: "visibleTo seenTile 0 = Some (Num 0)"
  by (simp add: seenTile_def clearVisibility_def)

lemma seenTile_discovered: "discoveredBy seenTile 0 = Some True"
  by (simp add: seenTile_def clearVisibility_def setVisibility_def plainsTile_def truthy_bool_def)

lemma overdrawnTile_counter: "visibleTo overdrawnTile 0 = Some (Num (- 1))"
  by (simp add: overdrawnTile_def setVisibility_def seenTile_counter)

lemma overdrawnTile_discovered: "discoveredBy overdrawnTile 0 = Some True"
  by (simp add: overdrawnTile_def setVisibility_def seenTile_discovered)

text \<open>
  C2 as stated fails twice. A discovered tile whose counter is negative (the counter is
  decremented without a lower bound) is not at \<open>visibleTo > 0\<close>, yet
  \<^verbatim>\<open>getCivTile\<close> returns the visible snapshot, unit included, because the test is
  truthiness. And the discovered snapshot of tile.js carries no key \<^verbatim>\<open>visible\<close>
  at all, so it does not carry \<^verbatim>\<open>visible=false\<close>.
\<close>

theorem C2_counterexample:
  "truthy_bool (discoveredBy overdrawnTile 0)
   \<and> visibleTo overdrawnTile 0 = Some (Num (- 1))
   \<and> getCivTile 0 overdrawnTile = Some (getVisibleData overdrawnTile)
   \<and> d_unit (getVisibleData overdrawnTile) = Present None
   \<and> getCivTile 0 seenTile = Some (getDiscoveredData seenTile)
   \<and> d_visible (getDiscoveredData seenTile) \<noteq> Present False"
  by (simp add: getCivTile_def truthy_bool_def overdrawnTile_counter overdrawnTile_discovered
      seenTile_counter seenTile_discovered getVisibleData_def getDiscoveredData_def
      overdrawnTile_def setVisibility_def seenTile_def clearVisibility_def plainsTile_def)

text \<open>
  C2 (amended): \<^verbatim>\<open>getCivTile(civ, tile)\<close> returns null when the tile is not discovered
  by the civ; for a discovered tile it returns the visible snapshot (type, movement cost,
  improvement, owner, yield, plus the unit and \<^verbatim>\<open>visible: true\<close>) when the counter is
  a positive number, and the discovered snapshot when the counter is 0, NaN or was never
  initialised. The discovered snapshot is the visible one without the keys \<^verbatim>\<open>unit\<close>
  and \<^verbatim>\<open>visible\<close> (it has no \<^verbatim>\<open>visible\<close> key rather than \<^verbatim>\<open>visible=false\<close>).
\<close>

theorem C2_getCivTile_cases:
  "(\<not> truthy_bool (discoveredBy t civ) \<longrightarrow> getCivTile civ t = None)
   \<and> (truthy_bool (discoveredBy t civ) \<and> visibleTo t civ = Some (Num n) \<and> 0 < n
        \<longrightarrow> getCivTile civ t = Some (getVisibleData t))
   \<and> (truthy_bool (discoveredBy t civ)
          \<and> (visibleTo t civ = Some (Num 0) \<or> visibleTo t civ = Some NaN \<or> visibleTo t civ = None)
        \<longrightarrow> getCivTile civ t = Some (getDiscoveredData t))
   \<and> getVisibleData t = (getDiscoveredData t)\<lparr>d_unit := Present (unit t), d_visible := Present True\<rparr>
   \<and> d_unit (getDiscoveredData t) = Absent \<and> d_visible (getDiscoveredData t) = Absent
   \<and> d_type (getDiscoveredData t) = type t
   \<and> d_improvement (getDiscoveredData t) = map_option getData (improvement t)
   \<and> d_owner (getDiscoveredData t) = owner t
   \<and> d_yield (getDiscoveredData t) = getTileYield t"
proof -
  have a: "\<not> truthy_bool (discoveredBy t civ) \<longrightarrow> getCivTile civ t = None"
    by (simp add: getCivTile_def)
  have b: "truthy_bool (discoveredBy t civ) \<and> visibleTo t civ = Some (Num n) \<and> 0 < n
        \<longrightarrow> getCivTile civ t = Some (getVisibleData t)"
    by (simp add: getCivTile_def)
  have c: "truthy_bool (discoveredBy t civ)
          \<and> (visibleTo t civ = Some (Num 0) \<or> visibleTo t civ = Some NaN \<or> visibleTo t civ = None)
        \<longrightarrow> getCivTile civ t = Some (getDiscoveredData t)"
    by (cases "visibleTo t civ") (auto simp: getCivTile_def)
  have d: "getVisibleData t = (getDiscoveredData t)\<lparr>d_unit := Present (unit t), d_visible := Present True\<rparr>"
    by (simp add: getVisibleData_def)
  have e: "d_unit (getDiscoveredData t) = Absent \<and> d_visible (getDiscoveredData t) = Absent
   \<and> d_type (getDiscoveredData t) = type t
   \<and> d_improvement (getDiscoveredData t) = map_option getData (improvement t)
   \<and> d_owner (getDiscoveredData t) = owner t
   \<and> d_yield (getDiscoveredData t) = getTileYield t"
    by (simp add: getDiscoveredData_def)
  from a b c d e show ?thesis by blast
qed

theorem C2_getCivTile_cases_witness:
  "getCivTile 1 seenTile = None
   \<and> getCivTile 0 (setVisibility seenTile 0 True) = Some (getVisibleData (setVisibility seenTile 0 True))
   \<and> getCivTile 0 seenTile = Some (getDiscoveredData seenTile)
   \<and> d_unit (getDiscoveredData seenTile) = Absent
   \<and> d_visible (getDiscoveredData seenTile) = Absent"
proof -
  have d1: "\<not> truthy_bool (discoveredBy seenTile 1)"
    by (simp add: seenTile_def clearVisibility_def setVisibility_def plainsTile_def truthy_bool_def)
  have d0: "truthy_bool (discoveredBy seenTile 0)"
    by (simp add: seenTile_discovered truthy_bool_def)
  have d0': "truthy_bool (discoveredBy (setVisibility seenTile 0 True) 0)"
    using d0 by (simp add: setVisibility_def)
  have v1: "visibleTo (setVisibility seenTile 0 True) 0 = Some (Num 1)"
    by (simp add: setVisibility_def seenTile_counter Let_def)
  show ?thesis
    using C2_getCivTile_cases [of seenTile 1 0] C2_getCivTile_cases [of seenTile 0 0]
      C2_getCivTile_cases [of "setVisibility seenTile 0 True" 0 1] d1 d0 d0' v1 seenTile_counter
    by simp
qed

text \<open>
  C10: on a tile whose \<^verbatim>\<open>visibleTo[civID]\<close> was never initialised, \<^verbatim>\<open>setVisibility(civID, true)\<close>
  leaves the counter at NaN (not a positive number) while \<^verbatim>\<open>discoveredBy[civID]\<close>
  becomes true, and \<^verbatim>\<open>getCivTile\<close> then returns the discovered snapshot, not the
  visible one.
\<close>

theorem C10_uninitialised_light_on:
  assumes "visibleTo t civID = None"
  shows "visibleTo (setVisibility t civID True) civID = Some NaN
    \<and> discoveredBy (setVisibility t civID True) civID = Some True
    \<and> getCivTile civID (setVisibility t civID True) = Some (getDiscoveredData (setVisibility t civID True))
    \<and> getCivTile civID (setVisibility t civID True) \<noteq> Some (getVisibleData (setVisibility t civID True))"
proof -
  let ?t = "setVisibility t civID True"
  have v: "visibleTo ?t civID = Some NaN"
    using assms by (simp add: setVisibility_def Let_def)
  have d: "discoveredBy ?t civID = Some True"
    by (auto simp: setVisibility_def Let_def truthy_bool_def)
  have g: "getCivTile civID ?t = Some (getDiscoveredData ?t)"
    using v d by (simp add: getCivTile_def truthy_bool_def)
  have n: "getVisibleData ?t \<noteq> getDiscoveredData ?t"
    by (simp add: getVisibleData_def getDiscoveredData_def)
  from v d g n show ?thesis by simp
qed

theorem C10_uninitialised_light_on_witness:
  "visibleTo plainsTile 0 = None
   \<and> visibleTo (setVisibility plainsTile 0 True) 0 = Some NaN
   \<and> discoveredBy (setVisibility plainsTile 0 True) 0 = Some True
   \<and> getCivTile 0 (setVisibility plainsTile 0 True) = Some (getDiscoveredData (setVisibility plainsTile 0 True))"
proof -
  have h: "visibleTo plainsTile 0 = None" by (simp add: plainsTile_def)
  from C10_uninitialised_light_on [OF h] h show ?thesis by simp
qed

subsection \<open>Map access\<close>

lemma width_putTile [simp]: "width (putTile m c t) = width m"
  and height_putTile [simp]: "height (putTile m c t) = height m"
  and cities_putTile [simp]: "cities (putTile m c t) = cities m"
  and updates_putTile [simp]: "updates (putTile m c t) = updates m"
  and traders_putTile [simp]: "traders (putTile m c t) = traders m"
  and traderHeap_putTile [simp]: "traderHeap (putTile m c t) = traderHeap m"
  and length_tiles_putTile [simp]: "length (tiles (putTile m c t)) = length (tiles m)"
  by (simp_all add: putTile_def)

lemma pos_putTile [simp]: "pos (putTile m c t) c' = pos m c'"
  by (simp add: pos_def)

lemma pos_cities_update [simp]: "pos (m\<lparr>cities := cs\<rparr>) c = pos m c"
  by (simp add: pos_def)

lemma getTile_cities_update [simp]: "getTile (m\<lparr>cities := cs\<rparr>) c = getTile m c"
  by (simp add: getTile_def Let_def)

lemma pos_tileUpdate [simp]: "pos (tileUpdate m c) c' = pos m c'"
  by (simp add: pos_def tileUpdate_def)

lemma getTile_tileUpdate [simp]: "getTile (tileUpdate m c) c' = getTile m c'"
  by (simp add: getTile_def tileUpdate_def pos_def Let_def)

lemma tileUpdate_fields [simp]:
  "width (tileUpdate m c) = width m" "height (tileUpdate m c) = height m"
  "cities (tileUpdate m c) = cities m" "tiles (tileUpdate m c) = tiles m"
  "traders (tileUpdate m c) = traders m" "traderHeap (tileUpdate m c) = traderHeap m"
  "updates (tileUpdate m c) = updates m @ [c]"
  by (simp_all add: tileUpdate_def)

lemma getTile_Some_range: "getTile m c = Some t \<Longrightarrow> 0 \<le> pos m c \<and> pos m c < int (length (tiles m))"
  by (simp add: getTile_def Let_def split: if_splits)

lemma getTile_putTile:
  "getTile m c = Some t0 \<Longrightarrow>
   getTile (putTile m c t) c' = (if pos m c' = pos m c then Some t else getTile m c')"
  unfolding getTile_def Let_def pos_putTile
  by (auto simp: putTile_def nth_list_update split: if_splits)

lemma visit_coordList: "\<exists>ys. coordList (visit m flt tile c r st) = coordList st @ ys"
  by (simp add: visit_def)

lemma fold_extends:
  assumes "\<And>a s. a \<in> set xs \<Longrightarrow> \<exists>ys. coordList (f a s) = coordList s @ ys"
  shows "\<exists>ys. coordList (fold f xs s) = coordList s @ ys"
  using assms
proof (induction xs arbitrary: s)
  case Nil then show ?case by simp
next
  case (Cons a xs)
  from Cons.prems [of a s] obtain y1 where y1: "coordList (f a s) = coordList s @ y1" by auto
  from Cons.IH [of "f a s"] Cons.prems obtain y2 where "coordList (fold f xs (f a s)) = coordList (f a s) @ y2"
    by auto
  with y1 show ?case by simp
qed

lemma getNeighborsRecurse_extends:
  "\<exists>ys. coordList (getNeighborsRecurse m flt c r st) = coordList st @ ys"
proof (induction m flt c r st rule: getNeighborsRecurse.induct)
  case (1 m flt c r st)
  show ?case
  proof (cases "getTile m c")
    case None
    then show ?thesis by (simp add: getNeighborsRecurse_None)
  next
    case (Some tile)
    show ?thesis
    proof (cases "r \<ge> 0")
      case False
      then show ?thesis by (simp add: getNeighborsRecurse_negative)
    next
      case True
      let ?f = "(\<lambda>coord s. if expandable (rangeMap s) (pos m coord) r
                    then getNeighborsRecurse m flt coord (r - 1) s else s)"
      have step: "\<And>a s. a \<in> set (getAdjacentCoords c) \<Longrightarrow> \<exists>ys. coordList (?f a s) = coordList s @ ys"
        using "1.IH" [OF Some True] by auto
      from fold_extends [of "getAdjacentCoords c" ?f, OF step]
      obtain ys where "coordList (fold ?f (getAdjacentCoords c) (visit m flt tile c r st))
         = coordList (visit m flt tile c r st) @ ys" by blast
      moreover obtain zs where "coordList (visit m flt tile c r st) = coordList st @ zs"
        using visit_coordList by blast
      ultimately show ?thesis by (simp add: getNeighborsRecurse_Some [OF Some True])
    qed
  qed
qed

lemma getNeighborsCoords_head:
  assumes "getTile m c = Some tile" "0 \<le> r"
  shows "\<exists>rest. getNeighborsCoords m c r None = c # rest"
proof -
  let ?st0 = "\<lparr>tileSet = [], coordList = [], rangeMap = Map.empty\<rparr>"
  let ?f = "(\<lambda>coord s. if expandable (rangeMap s) (pos m coord) r
                    then getNeighborsRecurse m None coord (r - 1) s else s)"
  have v: "coordList (visit m None tile c r ?st0) = [c]" by (simp add: visit_def)
  have step: "\<And>a s. a \<in> set (getAdjacentCoords c) \<Longrightarrow> \<exists>ys. coordList (?f a s) = coordList s @ ys"
    using getNeighborsRecurse_extends by auto
  from fold_extends [of "getAdjacentCoords c" ?f, OF step]
  obtain ys where "coordList (fold ?f (getAdjacentCoords c) (visit m None tile c r ?st0))
         = coordList (visit m None tile c r ?st0) @ ys" by blast
  with v show ?thesis by (simp add: getNeighborsCoords_def getNeighborsRecurse_Some [OF assms])
qed

subsection \<open>Settling\<close>

lemma setVisibility_fields [simp]:
  "owner (setVisibility t civ v) = owner t"
  "type (setVisibility t civ v) = type t"
  "unit (setVisibility t civ v) = unit t"
  "improvement (setVisibility t civ v) = improvement t"
  "baseYield (setVisibility t civ v) = baseYield t"
  "movementCost (setVisibility t civ v) = movementCost t"
  "elevation (setVisibility t civ v) = elevation t"
  by (simp_all add: setVisibility_def Let_def)

lemma getTile_pos_cong: "pos m c = pos m c' \<Longrightarrow> getTile m c = getTile m c'"
  by (simp add: getTile_def)

lemma addTile_fields [simp]: "c_civID (addTile ci c) = c_civID ci" "name (addTile ci c) = name ci"
  by (simp_all add: addTile_def)

lemma setTileOwner_first:
  assumes "getTile m c = Some tile" "owner tile = None" "city < length (cities m)"
  shows "\<exists>m'. setTileOwner m c city False = Some m' \<and> width m' = width m
     \<and> length (cities m') = length (cities m)
     \<and> c_civID (cities m' ! city) = c_civID (cities m ! city)
     \<and> name (cities m' ! city) = name (cities m ! city)
     \<and> (\<exists>t'. getTile m' c = Some t' \<and> owner t' = Some city \<and> type t' = type tile
            \<and> improvement t' = improvement tile)"
  using assms
  by (simp add: setTileOwner_def Let_def getTile_putTile)

lemma setTileOwner_keeps:
  assumes "setTileOwner m nb city False = Some m'"
    and "getTile m c = Some t" "owner t = Some city"
  shows "width m' = width m \<and> length (cities m') = length (cities m)
     \<and> c_civID (cities m' ! city) = c_civID (cities m ! city)
     \<and> name (cities m' ! city) = name (cities m ! city)
     \<and> getTile m' c = Some t"
proof (cases "getTile m nb")
  case None
  with assms(1) show ?thesis by (simp add: setTileOwner_def)
next
  case (Some tile)
  show ?thesis
  proof (cases "owner tile")
    case (Some old)
    with \<open>getTile m nb = Some tile\<close> assms show ?thesis
      by (simp add: setTileOwner_def split: if_splits)
  next
    case None
    have ne: "pos m c \<noteq> pos m nb"
    proof
      assume "pos m c = pos m nb"
      then have "getTile m c = getTile m nb" by (rule getTile_pos_cong)
      with assms(2,3) \<open>getTile m nb = Some tile\<close> None show False by simp
    qed
    from None \<open>getTile m nb = Some tile\<close> assms ne show ?thesis
      by (auto simp: setTileOwner_def Let_def getTile_putTile split: if_splits)
  qed
qed

lemma settleNeighbor_Some:
  "settleNeighbor city nb m = Some m2 \<Longrightarrow> \<exists>m1. setTileOwner m nb city False = Some m1 \<and> m2 = tileUpdate m1 nb"
  by (auto simp: settleNeighbor_def)

lemma forEach_Cons_Some:
  "forEach f (a # as) s = Some s' \<Longrightarrow> \<exists>s1. f a s = Some s1 \<and> forEach f as s1 = Some s'"
  by (simp split: option.splits)

lemma forEach_settle_keeps:
  assumes "forEach (settleNeighbor city) nbs m = Some m'"
    and "getTile m c = Some t" "owner t = Some city"
  shows "width m' = width m \<and> length (cities m') = length (cities m)
     \<and> c_civID (cities m' ! city) = c_civID (cities m ! city)
     \<and> name (cities m' ! city) = name (cities m ! city)
     \<and> getTile m' c = Some t"
  using assms
proof (induction nbs arbitrary: m)
  case Nil
  then show ?case by simp
next
  case (Cons nb nbs)
  from Cons.prems(1) obtain m1 where s: "setTileOwner m nb city False = Some m1"
    and r: "forEach (settleNeighbor city) nbs (tileUpdate m1 nb) = Some m'"
    by (blast dest: forEach_Cons_Some settleNeighbor_Some)
  from setTileOwner_keeps [OF s Cons.prems(2,3)]
  have k: "width m1 = width m \<and> length (cities m1) = length (cities m)
     \<and> c_civID (cities m1 ! city) = c_civID (cities m ! city)
     \<and> name (cities m1 ! city) = name (cities m ! city)
     \<and> getTile m1 c = Some t" .
  then have g: "getTile (tileUpdate m1 nb) c = Some t" by simp
  from Cons.IH [OF r g Cons.prems(3)] k show ?case by simp
qed

lemma canSettleOn_canBuildOn: "canSettleOn t \<Longrightarrow> canBuildOn t"
  by (simp add: canSettleOn_def canBuildOn_def)

lemma settleCityAt_success:
  assumes "settleCityAt m c n civID = Some (m', True)"
  shows "\<exists>t' i. getTile m' c = Some t' \<and> owner t' = Some (length (cities m))
     \<and> length (cities m') = length (cities m) + 1
     \<and> c_civID (cities m' ! length (cities m)) = civID
     \<and> name (cities m' ! length (cities m)) = n
     \<and> improvement t' = Some i \<and> i_type i = ''settlement''"
proof -
  let ?city = "length (cities m)"
  let ?m1 = "m\<lparr>cities := cities m @ [newCity c n civID]\<rparr>"
  from assms obtain tile where tile: "getTile m c = Some tile"
    by (auto simp: settleCityAt_def split: option.splits)
  from assms tile have can: "canSettleOn tile"
    by (auto simp: settleCityAt_def split: option.splits if_splits)
  from assms tile can obtain m2 where
    loop: "forEach (settleNeighbor ?city) (getNeighborsCoords ?m1 c 1 None) ?m1 = Some m2"
    and build: "buildImprovementAt m2 c ''settlement'' civID = Some m'"
    by (auto simp: settleCityAt_def Let_def split: option.splits)
  have tile1: "getTile ?m1 c = Some tile" using tile by simp
  from getNeighborsCoords_head [OF tile1, of 1] obtain rest where
    nbs: "getNeighborsCoords ?m1 c 1 None = c # rest" by auto
  from loop nbs have "forEach (settleNeighbor ?city) (c # rest) ?m1 = Some m2" by simp
  then obtain ma where
    first: "setTileOwner ?m1 c ?city False = Some ma"
    and rest: "forEach (settleNeighbor ?city) rest (tileUpdate ma c) = Some m2"
    by (blast dest: forEach_Cons_Some settleNeighbor_Some)
  have unowned: "owner tile = None" using can by (simp add: canSettleOn_def)
  have lt: "?city < length (cities ?m1)" by simp
  from setTileOwner_first [OF tile1 unowned lt] first obtain ta where
    ma: "width ma = width ?m1" "length (cities ma) = length (cities ?m1)"
      "c_civID (cities ma ! ?city) = c_civID (cities ?m1 ! ?city)"
      "name (cities ma ! ?city) = name (cities ?m1 ! ?city)"
      "getTile ma c = Some ta" "owner ta = Some ?city" "type ta = type tile"
    by auto
  have ga: "getTile (tileUpdate ma c) c = Some ta" using ma(5) by simp
  from forEach_settle_keeps [OF rest ga ma(6)] ma
  have m2: "length (cities m2) = length (cities ?m1)"
      "c_civID (cities m2 ! ?city) = civID" "name (cities m2 ! ?city) = n"
      "getTile m2 c = Some ta"
    by (simp_all add: newCity_def)
  have oc: "ownerCivID m2 ta = Some civID"
    using m2 ma(6) by (simp add: ownerCivID_def)
  have cb: "canBuildOn ta" using can ma(7) by (simp add: canSettleOn_def canBuildOn_def)
  from build m2(4) oc cb have
    m': "m' = tileUpdate (putTile m2 c (ta\<lparr>improvement := Some (newImprovement ''settlement'' (baseYield ta))\<rparr>)) c"
    by (simp add: buildImprovementAt_def)
  show ?thesis
    using m2 ma(6) by (simp add: m' getTile_putTile [OF m2(4)] newImprovement_def Let_def)
qed

lemma inBounds_getTile:
  assumes "populated m" "isInBounds m c"
  shows "\<exists>t. getTile m c = Some t"
proof -
  let ?xm = "mod_u (x c) (width m)"
  from assms(2) have b: "0 \<le> ?xm" "?xm < width m" "0 \<le> y c" "y c < height m"
    by (simp_all add: isInBounds_def)
  then have w: "0 < width m" by linarith
  have p0: "0 \<le> pos m c" using b w by (simp add: pos_def)
  have "y c * width m \<le> (height m - 1) * width m"
    using b w by (intro mult_right_mono) auto
  then have "pos m c < height m * width m"
    using b by (simp add: pos_def algebra_simps)
  with assms(1) have p1: "pos m c < int (length (tiles m))" by (simp add: populated_def)
  then have "nat (pos m c) < length (tiles m)" using p0 by linarith
  then have "tiles m ! nat (pos m c) \<in> set (tiles m)" by simp
  with assms(1) have "tiles m ! nat (pos m c) \<noteq> None" by (metis populated_def)
  with p0 p1 show ?thesis by (auto simp: getTile_def Let_def)
qed

text \<open>
  C9: for a coordinate \<open>c\<close> inside the bounds of a populated map and \<open>r \<ge> 1\<close>,
  \<^verbatim>\<open>getNeighborsCoords(c, r)\<close> without a filter contains \<open>c\<close> itself; and after a
  \<^verbatim>\<open>settleCityAt(c, name, civID)\<close> that returned true, the tile at \<open>c\<close> is owned by
  the city just created (the last of \<^verbatim>\<open>Map.cities\<close>, with that name and civID) and
  holds a \<^verbatim>\<open>'settlement'\<close> improvement.
\<close>

theorem C9_centre_included_and_settled:
  "(populated m \<and> isInBounds m c \<and> 1 \<le> r \<longrightarrow> c \<in> set (getNeighborsCoords m c r None))
   \<and> (settleCityAt m c n civID = Some (m', True) \<longrightarrow>
        (\<exists>t' i. getTile m' c = Some t' \<and> owner t' = Some (length (cities m))
           \<and> length (cities m') = length (cities m) + 1
           \<and> c_civID (cities m' ! length (cities m)) = civID
           \<and> name (cities m' ! length (cities m)) = n
           \<and> improvement t' = Some i \<and> i_type i = ''settlement''))"
proof (intro conjI impI)
  assume a: "populated m \<and> isInBounds m c \<and> 1 \<le> r"
  then obtain t where "getTile m c = Some t" using inBounds_getTile by blast
  moreover from a have "0 \<le> r" by simp
  ultimately obtain rest where "getNeighborsCoords m c r None = c # rest"
    using getNeighborsCoords_head by blast
  then show "c \<in> set (getNeighborsCoords m c r None)" by simp
next
  assume "settleCityAt m c n civID = Some (m', True)"
  then show "\<exists>t' i. getTile m' c = Some t' \<and> owner t' = Some (length (cities m))
           \<and> length (cities m') = length (cities m) + 1
           \<and> c_civID (cities m' ! length (cities m)) = civID
           \<and> name (cities m' ! length (cities m)) = n
           \<and> improvement t' = Some i \<and> i_type i = ''settlement''"
    by (rule settleCityAt_success)
qed

theorem C9_centre_included_and_settled_witness:
  "populated (plainsMap 3 3) \<and> isInBounds (plainsMap 3 3) \<lparr>x = 1, y = 1\<rparr>
   \<and> \<lparr>x = 1, y = 1\<rparr> \<in> set (getNeighborsCoords (plainsMap 3 3) \<lparr>x = 1, y = 1\<rparr> 1 None)
   \<and> (\<exists>m'. settleCityAt (plainsMap 3 3) \<lparr>x = 1, y = 1\<rparr> ''Rome'' 0 = Some (m', True)
        \<and> (\<exists>t' i. getTile m' \<lparr>x = 1, y = 1\<rparr> = Some t' \<and> owner t' = Some 0
              \<and> c_civID (cities m' ! 0) = 0 \<and> name (cities m' ! 0) = ''Rome''
              \<and> improvement t' = Some i \<and> i_type i = ''settlement''))"
proof -
  let ?m = "plainsMap 3 3" and ?c = "\<lparr>x = 1, y = 1\<rparr>"
  have p: "populated ?m" by (simp add: populated_def plainsMap_def)
  have b: "isInBounds ?m ?c" by (simp add: isInBounds_def plainsMap_def mod_u_def)
  have "case settleCityAt ?m ?c ''Rome'' 0 of None \<Rightarrow> False | Some (m', ok) \<Rightarrow> ok"
    by code_simp
  then obtain m' where s: "settleCityAt ?m ?c ''Rome'' 0 = Some (m', True)"
    by (auto split: option.splits)
  have e: "cities ?m = []" by (simp add: plainsMap_def)
  from C9_centre_included_and_settled [of ?m ?c 1 "''Rome''" 0 m'] p b s e
  show ?thesis by auto
qed

subsection \<open>Path search\<close>






lemma getNeighborsRecurse_neg [simp]: "getNeighborsRecurse m flt c (- 1) st = st"
  by (simp add: getNeighborsRecurse_negative)

lemma visit_coordList_subset: "set (coordList (visit m flt tile c r st)) \<subseteq> insert c (set (coordList st))"
  by (auto simp: visit_def)

lemma getNeighborsRecurse_zero:
  "set (coordList (getNeighborsRecurse m flt c 0 st)) \<subseteq> insert c (set (coordList st))"
proof (cases "getTile m c")
  case None
  then show ?thesis by (auto simp: getNeighborsRecurse_None)
next
  case (Some tile)
  let ?g = "\<lambda>coord s. if expandable (rangeMap s) (pos m coord) 0
                    then getNeighborsRecurse m flt coord (0 - 1) s else s"
  have "fold ?g (getAdjacentCoords c) (visit m flt tile c 0 st) = visit m flt tile c 0 st"
    by (rule fold_invariant [where P = "\<lambda>s. s = visit m flt tile c 0 st"])
       (auto split: option.splits)
  with Some show ?thesis using visit_coordList_subset [of m flt tile c 0 st]
    by (simp add: getNeighborsRecurse.simps [of m flt c 0 st])
qed

lemma getNeighborsCoords_one:
  "set (getNeighborsCoords m c 1 flt) \<subseteq> insert c (set (getAdjacentCoords c))"
proof (cases "getTile m c")
  case None
  then show ?thesis by (simp add: getNeighborsCoords_def getNeighborsRecurse_None)
next
  case (Some tile)
  let ?st0 = "\<lparr>tileSet = [], coordList = [], rangeMap = Map.empty\<rparr>"
  let ?B = "insert c (set (getAdjacentCoords c))"
  let ?f = "\<lambda>coord s. if expandable (rangeMap s) (pos m coord) 1
                    then getNeighborsRecurse m flt coord (1 - 1) s else s"
  have v: "set (coordList (visit m flt tile c 1 ?st0)) \<subseteq> ?B"
    using visit_coordList_subset [of m flt tile c 1 ?st0] by auto
  have "set (coordList (fold ?f (getAdjacentCoords c) (visit m flt tile c 1 ?st0))) \<subseteq> ?B"
  proof (rule fold_invariant [where P = "\<lambda>s. set (coordList s) \<subseteq> ?B", OF v])
    fix a and s :: NState
    assume a: "a \<in> set (getAdjacentCoords c)" and s: "set (coordList s) \<subseteq> ?B"
    from getNeighborsRecurse_zero [of m flt a s] a s
    show "set (coordList (?f a s)) \<subseteq> ?B" by auto
  qed
  with Some show ?thesis
    by (simp add: getNeighborsCoords_def getNeighborsRecurse.simps [of m flt c 1 ?st0])
qed









subsection \<open>Improvement.work\<close>

lemma cap_within:
  "food (stored (cap s)) \<le> food (capacity (cap s)) \<and> production (stored (cap s)) \<le> production (capacity (cap s))"
  by (simp add: cap_def min_Yield_def)

lemma work_caps: "\<exists>s. storage (snd (work heap i)) = cap s"
  by (auto simp: work_def Let_def split: prod.splits)

text \<open>
  C6: after every call of \<^verbatim>\<open>Improvement.work()\<close> the amounts in the improvement's
  store are componentwise at most its current capacity (the last step of \<^verbatim>\<open>work\<close> is
  \<^verbatim>\<open>storage.cap()\<close>).
\<close>

theorem C6_work_within_capacity: "food (stored (storage (snd (work heap i)))) \<le> food (capacity (storage (snd (work heap i))))
   \<and> production (stored (storage (snd (work heap i)))) \<le> production (capacity (storage (snd (work heap i))))"
proof -
  obtain s where "storage (snd (work heap i)) = cap s" using work_caps by blast
  then show ?thesis using cap_within [of s] by simp
qed

subsection \<open>Refused actions\<close>

lemma trainUnitAt_refused:
  assumes "getTile m c = Some tile"
    and "ownerCivID m tile \<noteq> Some ownerID \<or> improvement tile = None
         \<or> unitType \<notin> set (getTrainableUnitTypes env tile)
         \<or> (\<exists>i e. improvement tile = Some i \<and> errand i = Some e)"
  shows "trainUnitAt env m c unitType ownerID = Some (tileUpdate m c)"
  using assms by (auto simp: trainUnitAt_def split: option.splits)

lemma researchKnowledgeAt_refused:
  assumes "getTile m c = Some tile"
    and "ownerCivID m tile \<noteq> Some ownerID \<or> improvement tile = None
         \<or> (\<exists>i. improvement tile = Some i \<and> knowledgeName \<notin> set (getResearchableKnowledgeNames env i))
         \<or> (\<exists>i e. improvement tile = Some i \<and> errand i = Some e)"
  shows "researchKnowledgeAt env m c knowledgeName ownerID = Some (tileUpdate m c)"
  using assms by (auto simp: researchKnowledgeAt_def split: option.splits)

lemma buildImprovementAt_refused:
  assumes "getTile m c = Some tile"
    and "ownerCivID m tile \<noteq> Some ownerID \<or> \<not> canBuildOn tile"
  shows "buildImprovementAt m c ty ownerID = Some m"
  using assms by (auto simp: buildImprovementAt_def)

text \<open>
  C3 as stated fails for \<^verbatim>\<open>trainUnitAt\<close> and \<^verbatim>\<open>researchKnowledgeAt\<close>: their last
  statement \<^verbatim>\<open>this.tileUpdate(coords)\<close> stands outside the checks, so a refused call
  still pushes an update, after the check and not before it. On the fresh 3 by 3 map
  nobody owns the centre, and both calls leave one update in the queue.
\<close>

theorem C3_counterexample:
  "getTile (plainsMap 3 3) \<lparr>x = 1, y = 1\<rparr> = Some plainsTile
   \<and> ownerCivID (plainsMap 3 3) plainsTile = None
   \<and> updates (plainsMap 3 3) = []
   \<and> updates (the (trainUnitAt exampleEnv (plainsMap 3 3) \<lparr>x = 1, y = 1\<rparr> ''settler'' 0)) = [\<lparr>x = 1, y = 1\<rparr>]
   \<and> updates (the (researchKnowledgeAt exampleEnv (plainsMap 3 3) \<lparr>x = 1, y = 1\<rparr> ''scout'' 0)) = [\<lparr>x = 1, y = 1\<rparr>]"
proof -
  have a: "getTile (plainsMap 3 3) \<lparr>x = 1, y = 1\<rparr> = Some plainsTile"
    by (simp add: getTile_def plainsMap_def pos_def mod_u_def)
  have b: "ownerCivID (plainsMap 3 3) plainsTile = None"
    by (simp add: ownerCivID_def plainsTile_def)
  have c: "updates (plainsMap 3 3) = []" by (simp add: plainsMap_def)
  have d: "updates (the (trainUnitAt exampleEnv (plainsMap 3 3) \<lparr>x = 1, y = 1\<rparr> ''settler'' 0)) = [\<lparr>x = 1, y = 1\<rparr>]"
    by code_simp
  have e: "updates (the (researchKnowledgeAt exampleEnv (plainsMap 3 3) \<lparr>x = 1, y = 1\<rparr> ''scout'' 0)) = [\<lparr>x = 1, y = 1\<rparr>]"
    by code_simp
  from a b c d e show ?thesis by blast
qed

text \<open>
  C3 (amended): a call of \<^verbatim>\<open>buildImprovementAt\<close> on a tile the actor does not own or
  that fails \<^verbatim>\<open>canBuildOn\<close> returns with the map unchanged and no update. A call of
  \<^verbatim>\<open>trainUnitAt\<close> or \<^verbatim>\<open>researchKnowledgeAt\<close> on a tile the actor does not own, or
  that has no improvement, cannot train the unit type (research the knowledge), or
  already has an errand, changes no tile, city or trader and pushes exactly one
  \<^verbatim>\<open>tileUpdate\<close> for the coords, after the checks. Every check precedes every
  mutation; with no tile at the coords all three throw before any mutation.
\<close>

theorem C3_refused_actions:
  "(getTile m c = Some tile \<and> (ownerCivID m tile \<noteq> Some ownerID \<or> \<not> canBuildOn tile)
      \<longrightarrow> buildImprovementAt m c ty ownerID = Some m)
   \<and> (getTile m c = Some tile
        \<and> (ownerCivID m tile \<noteq> Some ownerID \<or> improvement tile = None
             \<or> unitType \<notin> set (getTrainableUnitTypes env tile)
             \<or> (\<exists>i e. improvement tile = Some i \<and> errand i = Some e))
      \<longrightarrow> trainUnitAt env m c unitType ownerID = Some (tileUpdate m c))
   \<and> (getTile m c = Some tile
        \<and> (ownerCivID m tile \<noteq> Some ownerID \<or> improvement tile = None
             \<or> (\<exists>i. improvement tile = Some i \<and> knowledgeName \<notin> set (getResearchableKnowledgeNames env i))
             \<or> (\<exists>i e. improvement tile = Some i \<and> errand i = Some e))
      \<longrightarrow> researchKnowledgeAt env m c knowledgeName ownerID = Some (tileUpdate m c))
   \<and> tiles (tileUpdate m c) = tiles m \<and> cities (tileUpdate m c) = cities m
   \<and> traders (tileUpdate m c) = traders m \<and> traderHeap (tileUpdate m c) = traderHeap m
   \<and> updates (tileUpdate m c) = updates m @ [c]
   \<and> (getTile m c = None
      \<longrightarrow> buildImprovementAt m c ty ownerID = None \<and> trainUnitAt env m c unitType ownerID = None
          \<and> researchKnowledgeAt env m c knowledgeName ownerID = None)"
proof -
  have n: "getTile m c = None
      \<longrightarrow> buildImprovementAt m c ty ownerID = None \<and> trainUnitAt env m c unitType ownerID = None
          \<and> researchKnowledgeAt env m c knowledgeName ownerID = None"
    by (simp add: buildImprovementAt_def trainUnitAt_def researchKnowledgeAt_def)
  show ?thesis
    using buildImprovementAt_refused [of m c tile ownerID ty]
      trainUnitAt_refused [of m c tile ownerID unitType env]
      researchKnowledgeAt_refused [of m c tile ownerID knowledgeName env] n
    by simp
qed

theorem C3_refused_actions_witness:
  "getTile (plainsMap 3 3) \<lparr>x = 1, y = 1\<rparr> = Some plainsTile
   \<and> ownerCivID (plainsMap 3 3) plainsTile \<noteq> Some 0
   \<and> buildImprovementAt (plainsMap 3 3) \<lparr>x = 1, y = 1\<rparr> ''farm'' 0 = Some (plainsMap 3 3)
   \<and> trainUnitAt exampleEnv (plainsMap 3 3) \<lparr>x = 1, y = 1\<rparr> ''settler'' 0
        = Some (tileUpdate (plainsMap 3 3) \<lparr>x = 1, y = 1\<rparr>)
   \<and> researchKnowledgeAt exampleEnv (plainsMap 3 3) \<lparr>x = 1, y = 1\<rparr> ''scout'' 0
        = Some (tileUpdate (plainsMap 3 3) \<lparr>x = 1, y = 1\<rparr>)
   \<and> updates (tileUpdate (plainsMap 3 3) \<lparr>x = 1, y = 1\<rparr>) = [\<lparr>x = 1, y = 1\<rparr>]
   \<and> getTile (plainsMap 3 3) \<lparr>x = 1, y = 5\<rparr> = None
   \<and> trainUnitAt exampleEnv (plainsMap 3 3) \<lparr>x = 1, y = 5\<rparr> ''settler'' 0 = None"
proof -
  let ?m = "plainsMap 3 3" and ?c = "\<lparr>x = 1, y = 1\<rparr>" and ?o = "\<lparr>x = 1, y = 5\<rparr>"
  have a: "getTile ?m ?c = Some plainsTile"
    by (simp add: getTile_def plainsMap_def pos_def mod_u_def)
  have b: "ownerCivID ?m plainsTile \<noteq> Some 0"
    by (simp add: ownerCivID_def plainsTile_def)
  have o: "getTile ?m ?o = None"
    by (simp add: getTile_def plainsMap_def pos_def mod_u_def)
  have u: "updates ?m = []" by (simp add: plainsMap_def)
  from C3_refused_actions [of ?m ?c plainsTile 0 "''farm''" "''settler''" exampleEnv "''scout''"]
    C3_refused_actions [of ?m ?o plainsTile 0 "''farm''" "''settler''" exampleEnv "''scout''"] a b o u
  show ?thesis by simp
qed

subsection \<open>Errands in progress\<close>

text \<open>
  C8, at an input where the code departs from it: in \<open>trainingMap\<close> the settlement
  at the centre, owned by civ 0, is training a settler. \<^verbatim>\<open>trainUnitAt\<close> on that tile
  starts nothing and keeps the errand, but \<^verbatim>\<open>startConstructionAt\<close> replaces the
  improvement by a new worksite with a new CONSTRUCTION errand: the errand in progress
  is discarded together with the settlement.
\<close>

theorem C8_startConstructionAt_preempts:
  "map_option (\<lambda>t. map_option (\<lambda>i. (i_type i, map_option e_type (errand i))) (improvement t))
     (getTile trainingMap \<lparr>x = 1, y = 1\<rparr>) = Some (Some (''settlement'', Some UNIT_TRAINING))
   \<and> ownerCivID trainingMap (the (getTile trainingMap \<lparr>x = 1, y = 1\<rparr>)) = Some 0
   \<and> map_option (\<lambda>t. map_option (\<lambda>i. (i_type i, map_option e_type (errand i))) (improvement t))
     (getTile (the (trainUnitAt exampleEnv trainingMap \<lparr>x = 1, y = 1\<rparr> ''settler'' 0)) \<lparr>x = 1, y = 1\<rparr>)
       = Some (Some (''settlement'', Some UNIT_TRAINING))
   \<and> map_option (\<lambda>t. map_option (\<lambda>i. (i_type i, map_option e_type (errand i))) (improvement t))
     (getTile (the (startConstructionAt exampleEnv trainingMap \<lparr>x = 1, y = 1\<rparr> ''farm'' 0)) \<lparr>x = 1, y = 1\<rparr>)
       = Some (Some (''worksite'', Some CONSTRUCTION))"
  by code_simp

subsection \<open>Knowledge spillover\<close>

lemma sameShape_refl: "sameShape m m"
  by (simp add: sameShape_def)

lemma sameShape_pos: "sameShape m m' \<Longrightarrow> pos m' c = pos m c"
  by (simp add: sameShape_def pos_def)

lemma getNeighborsRecurse_shape:
  assumes "sameShape m m'" "flt = None"
  shows "getNeighborsRecurse m' flt c r st = getNeighborsRecurse m flt c r st"
  using assms
proof (induction m flt c r st rule: getNeighborsRecurse.induct)
  case (1 m flt c r st)
  note sh = "1.prems"(1) and fl = "1.prems"(2)
  have ps: "\<And>a. pos m' a = pos m a" using sh by (rule sameShape_pos)
  show ?case
  proof (cases "getTile m c")
    case None
    with sh have "getTile m' c = None" by (simp add: sameShape_def)
    with None show ?thesis by (simp add: getNeighborsRecurse_None)
  next
    case (Some tile)
    with sh have "getTile m' c \<noteq> None" by (simp add: sameShape_def)
    then obtain tile' where t': "getTile m' c = Some tile'" by auto
    show ?thesis
    proof (cases "r \<ge> 0")
      case False
      then show ?thesis by (simp add: getNeighborsRecurse_negative)
    next
      case True
      have v: "visit m' flt tile' c r st = visit m flt tile c r st"
        by (simp add: visit_def ps fl)
      have "fold (\<lambda>coord s. if expandable (rangeMap s) (pos m' coord) r
                    then getNeighborsRecurse m' flt coord (r - 1) s else s)
                 (getAdjacentCoords c) (visit m flt tile c r st)
          = fold (\<lambda>coord s. if expandable (rangeMap s) (pos m coord) r
                    then getNeighborsRecurse m flt coord (r - 1) s else s)
                 (getAdjacentCoords c) (visit m flt tile c r st)"
      proof (rule fold_cong [OF refl refl])
        fix a assume a: "a \<in> set (getAdjacentCoords c)"
        show "(\<lambda>s. if expandable (rangeMap s) (pos m' a) r
                    then getNeighborsRecurse m' flt a (r - 1) s else s)
            = (\<lambda>s. if expandable (rangeMap s) (pos m a) r
                    then getNeighborsRecurse m flt a (r - 1) s else s)"
        proof
          fix s :: NState
          show "(if expandable (rangeMap s) (pos m' a) r
                    then getNeighborsRecurse m' flt a (r - 1) s else s)
            = (if expandable (rangeMap s) (pos m a) r
                    then getNeighborsRecurse m flt a (r - 1) s else s)"
            using "1.IH" [OF Some True a _ sh fl] by (simp add: ps)
        qed
      qed
      with v show ?thesis
        by (simp add: getNeighborsRecurse_Some [OF Some True] getNeighborsRecurse_Some [OF t' True])
    qed
  qed
qed

lemma getNeighborsCoords_shape:
  "sameShape m m' \<Longrightarrow> getNeighborsCoords m' c r None = getNeighborsCoords m c r None"
  by (simp add: getNeighborsCoords_def getNeighborsRecurse_shape)

lemma sameShape_putTile:
  assumes "sameShape m m1" "getTile m1 c = Some t0"
  shows "sameShape m (putTile m1 c t)"
proof -
  have "(getTile (putTile m1 c t) a = None) = (getTile m a = None)" for a
  proof (cases "pos m1 a = pos m1 c")
    case True
    then have "getTile m1 a = getTile m1 c" by (rule getTile_pos_cong)
    with assms have "getTile m a \<noteq> None" by (metis sameShape_def option.distinct(1))
    with True show ?thesis by (simp add: getTile_putTile [OF assms(2)])
  next
    case False
    with assms(1) show ?thesis by (simp add: getTile_putTile [OF assms(2)] sameShape_def)
  qed
  with assms(1) show ?thesis by (simp add: sameShape_def)
qed

lemma forEach_addKnowledgeAt:
  assumes "sameShape m m1" "\<And>a. a \<in> set cs \<Longrightarrow> getTile m a \<noteq> None"
  shows "\<exists>m2. forEach (addKnowledgeAt env n pts mx) cs (m1, calls)
            = Some (m2, calls @ map (callOf n pts mx) cs) \<and> sameShape m m2"
  using assms
proof (induction cs arbitrary: m1 calls)
  case Nil
  then show ?case by simp
next
  case (Cons a cs)
  from Cons.prems have "getTile m1 a \<noteq> None" by (simp add: sameShape_def)
  then obtain t where t: "getTile m1 a = Some t" by auto
  let ?m = "putTile m1 a (addKnowledge env t n pts (1 / 10) mx)"
  have step: "addKnowledgeAt env n pts mx a (m1, calls) = Some (?m, calls @ [callOf n pts mx a])"
    using t by (simp add: addKnowledgeAt_def callOf_def)
  have sh: "sameShape m ?m" using Cons.prems(1) t by (rule sameShape_putTile)
  from Cons.IH [OF sh, of "calls @ [callOf n pts mx a]"] Cons.prems(2) step show ?case by simp
qed

lemma forEach_spilloverEntry:
  assumes "sameShape m m1"
  shows "\<exists>m2. forEach (spilloverEntry env c) es (m1, calls)
            = Some (m2, calls @ concat (map (\<lambda>(n, pts, mx). map (callOf n pts mx) (getNeighborsCoords m c 1 None)) es))
           \<and> sameShape m m2"
  using assms
proof (induction es arbitrary: m1 calls)
  case Nil
  then show ?case by simp
next
  case (Cons e es)
  obtain n pts mx where e: "e = (n, pts, mx)" by (cases e) auto
  have nb: "getNeighborsCoords m1 c 1 None = getNeighborsCoords m c 1 None"
    using Cons.prems by (rule getNeighborsCoords_shape)
  from forEach_addKnowledgeAt [OF Cons.prems, of "getNeighborsCoords m c 1 None" env n pts mx calls]
    getNeighborsCoords_tiles
  obtain m2 where m2: "forEach (addKnowledgeAt env n pts mx) (getNeighborsCoords m c 1 None) (m1, calls)
      = Some (m2, calls @ map (callOf n pts mx) (getNeighborsCoords m c 1 None))" "sameShape m m2"
    by blast
  then have step: "spilloverEntry env c e (m1, calls)
      = Some (m2, calls @ map (callOf n pts mx) (getNeighborsCoords m c 1 None))"
    by (simp add: spilloverEntry_def e nb)
  from Cons.IH [OF m2(2), of "calls @ map (callOf n pts mx) (getNeighborsCoords m c 1 None)"] step e
  show ?case by simp
qed

lemma pos_coordsOf: "pos m (coordsOf m p) = p"
  by (simp add: pos_def coordsOf_def mod_u_def)

lemma getTile_coordsOf: "getTile m (coordsOf m p) = atSlot m p"
  by (simp add: getTile_def atSlot_def pos_coordsOf)

lemma getNeighborsCoords_one_shape:
  assumes "getTile m c = Some tile"
  shows "\<exists>rest. getNeighborsCoords m c 1 None = c # rest
     \<and> set rest \<subseteq> insert c (set (getAdjacentCoords c))
     \<and> (\<forall>a \<in> set rest. getTile m a \<noteq> None)"
proof -
  from getNeighborsCoords_head [OF assms, of 1] obtain rest where
    r: "getNeighborsCoords m c 1 None = c # rest" by auto
  from getNeighborsCoords_one [of m c None] r
  have "set rest \<subseteq> insert c (set (getAdjacentCoords c))" by auto
  moreover have "\<forall>a \<in> set rest. getTile m a \<noteq> None"
    using getNeighborsCoords_tiles [of _ m c 1 None] r by auto
  ultimately show ?thesis using r by blast
qed

lemma spillover_calls:
  assumes "atSlot m p = Some tile" "getKnowledges env tile False \<noteq> []"
  shows "\<exists>m'. spillover env p (m, calls)
     = Some (m', calls @ concat (map (\<lambda>(n, pts, mx). map (callOf n pts mx)
                  (getNeighborsCoords m (coordsOf m p) 1 None)) (getKnowledgeSpillover env tile)))"
  using forEach_spilloverEntry [OF sameShape_refl, of env "coordsOf m p" "getKnowledgeSpillover env tile" m calls] assms
  by (auto simp: spillover_def)

lemma visit_distinct:
  assumes "set (map (pos m) (coordList st)) \<subseteq> set (tileSet st) \<and> distinct (map (pos m) (coordList st))"
  shows "set (map (pos m) (coordList (visit m flt tile c r st))) \<subseteq> set (tileSet (visit m flt tile c r st))
     \<and> distinct (map (pos m) (coordList (visit m flt tile c r st)))"
  using assms by (auto simp: visit_def)

lemma getNeighborsRecurse_distinct:
  assumes "set (map (pos m) (coordList st)) \<subseteq> set (tileSet st) \<and> distinct (map (pos m) (coordList st))"
  shows "set (map (pos m) (coordList (getNeighborsRecurse m flt c r st)))
           \<subseteq> set (tileSet (getNeighborsRecurse m flt c r st))
     \<and> distinct (map (pos m) (coordList (getNeighborsRecurse m flt c r st)))"
  using assms
proof (induction m flt c r st rule: getNeighborsRecurse.induct)
  case (1 m flt c r st)
  let ?P = "\<lambda>s. set (map (pos m) (coordList s)) \<subseteq> set (tileSet s) \<and> distinct (map (pos m) (coordList s))"
  show ?case
  proof (cases "getTile m c")
    case None
    then have "getNeighborsRecurse m flt c r st = st" by (rule getNeighborsRecurse_None)
    with "1.prems" show ?thesis by (simp only:)
  next
    case (Some tile)
    show ?thesis
    proof (cases "r \<ge> 0")
      case False
      then have "r < 0" by simp
      then have "getNeighborsRecurse m flt c r st = st" by (rule getNeighborsRecurse_negative)
      with "1.prems" show ?thesis by (simp only:)
    next
      case True
      let ?f = "(\<lambda>coord s. if expandable (rangeMap s) (pos m coord) r
                    then getNeighborsRecurse m flt coord (r - 1) s else s)"
      have v: "?P (visit m flt tile c r st)" using "1.prems" by (rule visit_distinct)
      have "?P (fold ?f (getAdjacentCoords c) (visit m flt tile c r st))"
      proof (rule fold_invariant [where P = ?P, OF v])
        fix a and s :: NState assume a: "a \<in> set (getAdjacentCoords c)" and s: "?P s"
        show "?P (?f a s)"
        proof (cases "expandable (rangeMap s) (pos m a) r")
          case ex: True
          from "1.IH" [OF Some True a ex s] ex show ?thesis by (simp only: if_True)
        next
          case ex: False
          with s show ?thesis by (simp only: if_False)
        qed
      qed
      then show ?thesis by (simp only: getNeighborsRecurse_Some [OF Some True])
    qed
  qed
qed

lemma getNeighborsCoords_distinct: "distinct (map (pos m) (getNeighborsCoords m c r flt))"
  using getNeighborsRecurse_distinct [of m "\<lparr>tileSet = [], coordList = [], rangeMap = Map.empty\<rparr>" flt c r]
  by (simp add: getNeighborsCoords_def)

lemma getNeighborsCoords_one_shape2:
  assumes "getTile m c = Some tile"
  shows "\<exists>rest. getNeighborsCoords m c 1 None = c # rest
     \<and> set rest \<subseteq> set (getAdjacentCoords c)
     \<and> (\<forall>a \<in> set rest. getTile m a \<noteq> None \<and> pos m a \<noteq> pos m c)
     \<and> distinct (map (pos m) rest)"
proof -
  from getNeighborsCoords_one_shape [OF assms] obtain rest where
    r: "getNeighborsCoords m c 1 None = c # rest"
      "set rest \<subseteq> insert c (set (getAdjacentCoords c))"
      "\<forall>a \<in> set rest. getTile m a \<noteq> None" by blast
  from getNeighborsCoords_distinct [of m c 1 None] r(1)
  have d: "pos m c \<notin> set (map (pos m) rest)" "distinct (map (pos m) rest)" by simp_all
  then have ne: "\<forall>a \<in> set rest. pos m a \<noteq> pos m c" by (metis image_eqI set_map)
  moreover from ne r(2) have "set rest \<subseteq> set (getAdjacentCoords c)" by auto
  ultimately show ?thesis using r d by blast
qed

text \<open>
  C7 as stated fails: the loop runs over \<^verbatim>\<open>getNeighborsCoords(coords)\<close>, whose first
  element is the source coordinate itself, and which holds only the neighbours that
  exist. On the 3 by 3 map with knowledge on every tile, the centre (slot 4) sends the
  first of its 7 calls to itself, and the corner (slot 0) makes 4 calls, 3 of them to
  neighbours; these 4 are the first calls of \<^verbatim>\<open>Map.turn\<close>.
\<close>

theorem C7_counterexample:
  "coordsOf (plainsMap 3 3) 4 = \<lparr>x = 1, y = 1\<rparr>
   \<and> map target (snd (the (spillover knowEnv 4 (plainsMap 3 3, []))))
       = [\<lparr>x = 1, y = 1\<rparr>, \<lparr>x = 1, y = 2\<rparr>, \<lparr>x = 2, y = 2\<rparr>, \<lparr>x = 2, y = 1\<rparr>,
          \<lparr>x = 1, y = 0\<rparr>, \<lparr>x = 0, y = 1\<rparr>, \<lparr>x = 0, y = 2\<rparr>]
   \<and> coordsOf (plainsMap 3 3) 0 = \<lparr>x = 0, y = 0\<rparr>
   \<and> map target (snd (the (spillover knowEnv 0 (plainsMap 3 3, []))))
       = [\<lparr>x = 0, y = 0\<rparr>, \<lparr>x = 0, y = 1\<rparr>, \<lparr>x = 1, y = 0\<rparr>, \<lparr>x = - 1, y = 0\<rparr>]
   \<and> take 4 (map target (snd (the (turn knowEnv (plainsMap 3 3)))))
       = [\<lparr>x = 0, y = 0\<rparr>, \<lparr>x = 0, y = 1\<rparr>, \<lparr>x = 1, y = 0\<rparr>, \<lparr>x = - 1, y = 0\<rparr>]"
  by code_simp

lemma getNeighborsRecurse_zero_eq:
  "getNeighborsRecurse m flt c 0 st = (case getTile m c of None \<Rightarrow> st | Some tile \<Rightarrow> visit m flt tile c 0 st)"
proof (cases "getTile m c")
  case None
  then show ?thesis by (simp add: getNeighborsRecurse_None)
next
  case (Some tile)
  let ?g = "\<lambda>coord s. if expandable (rangeMap s) (pos m coord) 0
                    then getNeighborsRecurse m flt coord (0 - 1) s else s"
  have "fold ?g (getAdjacentCoords c) (visit m flt tile c 0 st) = visit m flt tile c 0 st"
    by (rule fold_invariant [where P = "\<lambda>s. s = visit m flt tile c 0 st"])
       (auto split: option.splits)
  with Some show ?thesis by (simp add: getNeighborsRecurse.simps [of m flt c 0 st])
qed

lemma ring_step:
  assumes "indexed m s"
  shows "indexed m (if expandable (rangeMap s) (pos m a) 1 then getNeighborsRecurse m None a (1 - 1) s else s)"
    and "set (tileSet s) \<subseteq> set (tileSet (if expandable (rangeMap s) (pos m a) 1 then getNeighborsRecurse m None a (1 - 1) s else s))"
    and "getTile m a \<noteq> None \<Longrightarrow> pos m a \<in> set (tileSet (if expandable (rangeMap s) (pos m a) 1 then getNeighborsRecurse m None a (1 - 1) s else s))"
  using assms
  by (auto simp: indexed_def getNeighborsRecurse_zero_eq visit_def expandable_def split: option.splits)

lemma ring_fold:
  assumes "indexed m s"
    and "f = (\<lambda>coord s. if expandable (rangeMap s) (pos m coord) 1
                    then getNeighborsRecurse m None coord (1 - 1) s else s)"
  shows "indexed m (fold f xs s) \<and> set (tileSet s) \<subseteq> set (tileSet (fold f xs s))
    \<and> (\<forall>a \<in> set xs. getTile m a \<noteq> None \<longrightarrow> pos m a \<in> set (tileSet (fold f xs s)))"
  using assms(1)
proof (induction xs arbitrary: s)
  case Nil
  then show ?case by simp
next
  case (Cons b xs)
  have s1: "indexed m (f b s)" unfolding assms(2) using Cons.prems by (rule ring_step(1))
  have s2: "set (tileSet s) \<subseteq> set (tileSet (f b s))" unfolding assms(2) using Cons.prems by (rule ring_step(2))
  have s3: "getTile m b \<noteq> None \<Longrightarrow> pos m b \<in> set (tileSet (f b s))"
    unfolding assms(2) using Cons.prems by (rule ring_step(3))
  from Cons.IH [OF s1] have ih1: "indexed m (fold f xs (f b s))"
    and ih2: "set (tileSet (f b s)) \<subseteq> set (tileSet (fold f xs (f b s)))"
    and ih3: "\<forall>a \<in> set xs. getTile m a \<noteq> None \<longrightarrow> pos m a \<in> set (tileSet (fold f xs (f b s)))"
    by blast+
  have e: "fold f (b # xs) s = fold f xs (f b s)" by simp
  have "\<forall>a \<in> set (b # xs). getTile m a \<noteq> None \<longrightarrow> pos m a \<in> set (tileSet (fold f xs (f b s)))"
    using s3 ih2 ih3 by auto
  with ih1 s2 ih2 show ?case unfolding e by blast
qed

lemma getNeighborsCoords_one_complete:
  assumes "getTile m c = Some tile" "a \<in> set (getAdjacentCoords c)" "getTile m a \<noteq> None"
  shows "pos m a \<in> pos m ` set (getNeighborsCoords m c 1 None)"
proof -
  let ?st0 = "\<lparr>tileSet = [], coordList = [], rangeMap = Map.empty\<rparr>"
  let ?f = "\<lambda>coord s. if expandable (rangeMap s) (pos m coord) 1
                    then getNeighborsRecurse m None coord (1 - 1) s else s"
  have i: "indexed m (visit m None tile c 1 ?st0)" by (simp add: indexed_def visit_def)
  from ring_fold [OF i refl, of "getAdjacentCoords c"] assms(2,3)
  have "indexed m (fold ?f (getAdjacentCoords c) (visit m None tile c 1 ?st0))"
    and "pos m a \<in> set (tileSet (fold ?f (getAdjacentCoords c) (visit m None tile c 1 ?st0)))"
    by blast+
  then have "pos m a \<in> pos m ` set (coordList (fold ?f (getAdjacentCoords c) (visit m None tile c 1 ?st0)))"
    by (auto simp: indexed_def)
  then show ?thesis
    by (simp add: getNeighborsCoords_def getNeighborsRecurse_Some [OF assms(1), of 1])
qed

lemma getNeighborsCoords_one_exact:
  assumes "getTile m c = Some tile"
  shows "\<exists>rest. getNeighborsCoords m c 1 None = c # rest
     \<and> set rest \<subseteq> set (getAdjacentCoords c)
     \<and> pos m ` set rest = pos m ` {a \<in> set (getAdjacentCoords c). getTile m a \<noteq> None} - {pos m c}
     \<and> distinct (map (pos m) rest)"
proof -
  from getNeighborsCoords_one_shape2 [OF assms] obtain rest where
    r: "getNeighborsCoords m c 1 None = c # rest"
      "set rest \<subseteq> set (getAdjacentCoords c)"
      "\<forall>a \<in> set rest. getTile m a \<noteq> None \<and> pos m a \<noteq> pos m c"
      "distinct (map (pos m) rest)" by blast
  have "pos m ` set rest = pos m ` {a \<in> set (getAdjacentCoords c). getTile m a \<noteq> None} - {pos m c}"
  proof
    show "pos m ` set rest \<subseteq> pos m ` {a \<in> set (getAdjacentCoords c). getTile m a \<noteq> None} - {pos m c}"
      using r(2,3) by auto
    show "pos m ` {a \<in> set (getAdjacentCoords c). getTile m a \<noteq> None} - {pos m c} \<subseteq> pos m ` set rest"
    proof
      fix q assume "q \<in> pos m ` {a \<in> set (getAdjacentCoords c). getTile m a \<noteq> None} - {pos m c}"
      then obtain a where a: "a \<in> set (getAdjacentCoords c)" "getTile m a \<noteq> None" "q = pos m a" "q \<noteq> pos m c"
        by auto
      from getNeighborsCoords_one_complete [OF assms a(1,2)] r(1) a(3,4)
      show "q \<in> pos m ` set rest" by auto
    qed
  qed
  with r show ?thesis by blast
qed

lemma forEach_append:
  "forEach f (xs @ ys) s = (case forEach f xs s of None \<Rightarrow> None | Some s1 \<Rightarrow> forEach f ys s1)"
  by (induction xs arbitrary: s) (auto split: option.splits)

lemma turnTile_calls:
  assumes "turnTile env p (m0, calls0) = Some s'"
  shows "\<exists>m1 tile. workTile env (int p) m0 = Some m1 \<and> atSlot m1 (int p) = Some tile
     \<and> snd s' = calls0 @ (if getKnowledges env tile False = [] then []
          else concat (map (\<lambda>(n, pts, mx). map (callOf n pts mx)
                  (getNeighborsCoords m1 (coordsOf m1 (int p)) 1 None)) (getKnowledgeSpillover env tile)))"
proof (cases "workTile env (int p) m0")
  case None
  with assms show ?thesis by (simp add: turnTile_def)
next
  case (Some m1)
  with assms have s: "spillover env (int p) (m1, calls0) = Some s'" by (simp add: turnTile_def)
  show ?thesis
  proof (cases "atSlot m1 (int p)")
    case None
    with s show ?thesis by (simp add: spillover_def)
  next
    case t: (Some tile)
    show ?thesis
    proof (cases "getKnowledges env tile False = []")
      case True
      with s t have "s' = (m1, calls0)" by (simp add: spillover_def)
      with Some t True show ?thesis by simp
    next
      case False
      from spillover_calls [OF t False, of calls0] s obtain m2 where
        "s' = (m2, calls0 @ concat (map (\<lambda>(n, pts, mx). map (callOf n pts mx)
                  (getNeighborsCoords m1 (coordsOf m1 (int p)) 1 None)) (getKnowledgeSpillover env tile)))"
        by auto
      then have "snd s' = calls0 @ concat (map (\<lambda>(n, pts, mx). map (callOf n pts mx)
                  (getNeighborsCoords m1 (coordsOf m1 (int p)) 1 None)) (getKnowledgeSpillover env tile))"
        by simp
      with Some t False show ?thesis by simp
    qed
  qed
qed

lemma upt_split: "p < n \<Longrightarrow> [0 ..< n] = [0 ..< p] @ (p # [Suc p ..< n])"
proof -
  assume p: "p < n"
  then have "[0 ..< n] = [0 ..< p] @ [p ..< n]"
    using upt_add_eq_append [of 0 p "n - p"] by simp
  with p show ?thesis by (simp add: upt_conv_Cons)
qed

text \<open>
  C7 (amended): during \<^verbatim>\<open>Map.turn\<close> the calls of \<^verbatim>\<open>addKnowledge\<close> are made tile by
  tile, in the order of the slots, and by nothing else. When the loop is at slot \<open>p\<close> and
  the improvement of the tile has worked, the tile adds no call if its
  \<^verbatim>\<open>getKnowledges(false)\<close> is empty; otherwise every entry of its
  \<^verbatim>\<open>getKnowledgeSpillover()\<close> makes one call
  \<^verbatim>\<open>addKnowledge(k, spilloverPoints, 0.1, maxPoints)\<close> on each coordinate of
  \<^verbatim>\<open>getNeighborsCoords(coords)\<close>, in that order. That list is the coordinate of the tile
  itself, followed by coordinates among its six neighbours that hold every neighbouring
  tile that exists exactly once, and never the tile itself again. The spillover of a
  tile that exists always returns, with exactly these calls added.
\<close>

theorem C7_spillover_targets:
  "(turn env m = Some (m', calls) \<and> p < length (tiles m) \<longrightarrow>
     (\<exists>s m1 tile s' sn.
         forEach (turnTile env) [0 ..< p] (m, []) = Some s
       \<and> workTile env (int p) (fst s) = Some m1
       \<and> atSlot m1 (int p) = Some tile
       \<and> forEach (turnTile env) [0 ..< Suc p] (m, []) = Some s'
       \<and> snd s' = snd s @ (if getKnowledges env tile False = [] then []
                     else concat (map (\<lambda>(n, pts, mx). map (callOf n pts mx)
                            (getNeighborsCoords m1 (coordsOf m1 (int p)) 1 None))
                          (getKnowledgeSpillover env tile)))
       \<and> forEach (turnTile env) [0 ..< length (tiles m)] (m, []) = Some sn
       \<and> calls = snd sn
       \<and> (\<exists>rest. getNeighborsCoords m1 (coordsOf m1 (int p)) 1 None = coordsOf m1 (int p) # rest
             \<and> set rest \<subseteq> set (getAdjacentCoords (coordsOf m1 (int p)))
             \<and> pos m1 ` set rest
                 = pos m1 ` {a \<in> set (getAdjacentCoords (coordsOf m1 (int p))). getTile m1 a \<noteq> None}
                   - {pos m1 (coordsOf m1 (int p))}
             \<and> distinct (map (pos m1) rest))))
   \<and> (atSlot mt q = Some t \<longrightarrow>
        (\<exists>m2. spillover env q (mt, sofar)
           = Some (m2, sofar @ (if getKnowledges env t False = [] then []
                     else concat (map (\<lambda>(n, pts, mx). map (callOf n pts mx)
                            (getNeighborsCoords mt (coordsOf mt q) 1 None))
                          (getKnowledgeSpillover env t))))))"
proof (intro conjI impI)
  assume a: "turn env m = Some (m', calls) \<and> p < length (tiles m)"
  then obtain sn where sn: "forEach (turnTile env) [0 ..< length (tiles m)] (m, []) = Some sn"
    and c: "calls = snd sn"
    by (auto simp: turn_def)
  from a have "[0 ..< length (tiles m)] = [0 ..< p] @ (p # [Suc p ..< length (tiles m)])"
    by (simp add: upt_split)
  with sn have "(case forEach (turnTile env) [0 ..< p] (m, []) of None \<Rightarrow> None
                 | Some s1 \<Rightarrow> forEach (turnTile env) (p # [Suc p ..< length (tiles m)]) s1) = Some sn"
    by (simp only: forEach_append)
  then obtain s where s: "forEach (turnTile env) [0 ..< p] (m, []) = Some s"
    and r: "forEach (turnTile env) (p # [Suc p ..< length (tiles m)]) s = Some sn"
    by (cases "forEach (turnTile env) [0 ..< p] (m, [])") simp_all
  from r obtain s' where s': "turnTile env p s = Some s'"
    by (cases "turnTile env p s") simp_all
  have "forEach (turnTile env) ([0 ..< p] @ [p]) (m, []) = Some s'"
    using s s' by (simp only: forEach_append) simp
  then have p1: "forEach (turnTile env) [0 ..< Suc p] (m, []) = Some s'" by simp
  from s' have "turnTile env p (fst s, snd s) = Some s'" by simp
  from turnTile_calls [OF this] obtain m1 tile where
    w: "workTile env (int p) (fst s) = Some m1" and t: "atSlot m1 (int p) = Some tile"
    and l: "snd s' = snd s @ (if getKnowledges env tile False = [] then []
                     else concat (map (\<lambda>(n, pts, mx). map (callOf n pts mx)
                            (getNeighborsCoords m1 (coordsOf m1 (int p)) 1 None))
                          (getKnowledgeSpillover env tile)))"
    by blast
  from t have "getTile m1 (coordsOf m1 (int p)) = Some tile" by (simp add: getTile_coordsOf)
  from getNeighborsCoords_one_exact [OF this] s w t p1 l sn c
  show "\<exists>s m1 tile s' sn.
         forEach (turnTile env) [0 ..< p] (m, []) = Some s
       \<and> workTile env (int p) (fst s) = Some m1
       \<and> atSlot m1 (int p) = Some tile
       \<and> forEach (turnTile env) [0 ..< Suc p] (m, []) = Some s'
       \<and> snd s' = snd s @ (if getKnowledges env tile False = [] then []
                     else concat (map (\<lambda>(n, pts, mx). map (callOf n pts mx)
                            (getNeighborsCoords m1 (coordsOf m1 (int p)) 1 None))
                          (getKnowledgeSpillover env tile)))
       \<and> forEach (turnTile env) [0 ..< length (tiles m)] (m, []) = Some sn
       \<and> calls = snd sn
       \<and> (\<exists>rest. getNeighborsCoords m1 (coordsOf m1 (int p)) 1 None = coordsOf m1 (int p) # rest
             \<and> set rest \<subseteq> set (getAdjacentCoords (coordsOf m1 (int p)))
             \<and> pos m1 ` set rest
                 = pos m1 ` {a \<in> set (getAdjacentCoords (coordsOf m1 (int p))). getTile m1 a \<noteq> None}
                   - {pos m1 (coordsOf m1 (int p))}
             \<and> distinct (map (pos m1) rest))"
    by blast
next
  assume t: "atSlot mt q = Some t"
  show "\<exists>m2. spillover env q (mt, sofar)
           = Some (m2, sofar @ (if getKnowledges env t False = [] then []
                     else concat (map (\<lambda>(n, pts, mx). map (callOf n pts mx)
                            (getNeighborsCoords mt (coordsOf mt q) 1 None))
                          (getKnowledgeSpillover env t))))"
  proof (cases "getKnowledges env t False = []")
    case True
    with t show ?thesis by (simp add: spillover_def)
  next
    case False
    with spillover_calls [OF t False, of sofar] show ?thesis by simp
  qed
qed

text \<open>The amended C7 at the centre of the 3 by 3 map with knowledge on every tile.\<close>

theorem C7_spillover_targets_witness:
  "\<not> Option.is_none (turn knowEnv (plainsMap 3 3))
   \<and> (4 :: nat) < length (tiles (plainsMap 3 3))
   \<and> length (snd (the (turn knowEnv (plainsMap 3 3)))) = 51
   \<and> (\<exists>s m1 tile s' sn.
         forEach (turnTile knowEnv) [0 ..< 4] (plainsMap 3 3, []) = Some s
       \<and> workTile knowEnv (int 4) (fst s) = Some m1
       \<and> atSlot m1 (int 4) = Some tile
       \<and> forEach (turnTile knowEnv) [0 ..< Suc 4] (plainsMap 3 3, []) = Some s'
       \<and> snd s' = snd s @ (if getKnowledges knowEnv tile False = [] then []
                     else concat (map (\<lambda>(n, pts, mx). map (callOf n pts mx)
                            (getNeighborsCoords m1 (coordsOf m1 (int 4)) 1 None))
                          (getKnowledgeSpillover knowEnv tile)))
       \<and> forEach (turnTile knowEnv) [0 ..< length (tiles (plainsMap 3 3))] (plainsMap 3 3, []) = Some sn
       \<and> snd (the (turn knowEnv (plainsMap 3 3))) = snd sn
       \<and> (\<exists>rest. getNeighborsCoords m1 (coordsOf m1 (int 4)) 1 None = coordsOf m1 (int 4) # rest
             \<and> set rest \<subseteq> set (getAdjacentCoords (coordsOf m1 (int 4)))
             \<and> pos m1 ` set rest
                 = pos m1 ` {a \<in> set (getAdjacentCoords (coordsOf m1 (int 4))). getTile m1 a \<noteq> None}
                   - {pos m1 (coordsOf m1 (int 4))}
             \<and> distinct (map (pos m1) rest)))
   \<and> atSlot (plainsMap 3 3) 4 = Some plainsTile
   \<and> (\<exists>m2. spillover knowEnv 4 (plainsMap 3 3, [])
          = Some (m2, [] @ (if getKnowledges knowEnv plainsTile False = [] then []
                     else concat (map (\<lambda>(n, pts, mx). map (callOf n pts mx)
                            (getNeighborsCoords (plainsMap 3 3) (coordsOf (plainsMap 3 3) 4) 1 None))
                          (getKnowledgeSpillover knowEnv plainsTile)))))"
proof -
  have n: "\<not> Option.is_none (turn knowEnv (plainsMap 3 3))" by code_simp
  then have t: "turn knowEnv (plainsMap 3 3)
      = Some (fst (the (turn knowEnv (plainsMap 3 3))), snd (the (turn knowEnv (plainsMap 3 3))))"
    by (cases "turn knowEnv (plainsMap 3 3)") simp_all
  have l: "(4 :: nat) < length (tiles (plainsMap 3 3))" by (simp add: plainsMap_def)
  have k: "length (snd (the (turn knowEnv (plainsMap 3 3)))) = 51" by code_simp
  have a: "atSlot (plainsMap 3 3) 4 = Some plainsTile" by (simp add: atSlot_def plainsMap_def)
  note c = C7_spillover_targets [where env = knowEnv and m = "plainsMap 3 3"
      and m' = "fst (the (turn knowEnv (plainsMap 3 3)))"
      and calls = "snd (the (turn knowEnv (plainsMap 3 3)))" and p = 4
      and mt = "plainsMap 3 3" and q = 4 and t = plainsTile and sofar = "[]"]
  from c t l have 1: "\<exists>s m1 tile s' sn.
         forEach (turnTile knowEnv) [0 ..< 4] (plainsMap 3 3, []) = Some s
       \<and> workTile knowEnv (int 4) (fst s) = Some m1
       \<and> atSlot m1 (int 4) = Some tile
       \<and> forEach (turnTile knowEnv) [0 ..< Suc 4] (plainsMap 3 3, []) = Some s'
       \<and> snd s' = snd s @ (if getKnowledges knowEnv tile False = [] then []
                     else concat (map (\<lambda>(n, pts, mx). map (callOf n pts mx)
                            (getNeighborsCoords m1 (coordsOf m1 (int 4)) 1 None))
                          (getKnowledgeSpillover knowEnv tile)))
       \<and> forEach (turnTile knowEnv) [0 ..< length (tiles (plainsMap 3 3))] (plainsMap 3 3, []) = Some sn
       \<and> snd (the (turn knowEnv (plainsMap 3 3))) = snd sn
       \<and> (\<exists>rest. getNeighborsCoords m1 (coordsOf m1 (int 4)) 1 None = coordsOf m1 (int 4) # rest
             \<and> set rest \<subseteq> set (getAdjacentCoords (coordsOf m1 (int 4)))
             \<and> pos m1 ` set rest
                 = pos m1 ` {a \<in> set (getAdjacentCoords (coordsOf m1 (int 4))). getTile m1 a \<noteq> None}
                   - {pos m1 (coordsOf m1 (int 4))}
             \<and> distinct (map (pos m1) rest))"
    by blast
  from c a have 2: "\<exists>m2. spillover knowEnv 4 (plainsMap 3 3, [])
          = Some (m2, [] @ (if getKnowledges knowEnv plainsTile False = [] then []
                     else concat (map (\<lambda>(n, pts, mx). map (callOf n pts mx)
                            (getNeighborsCoords (plainsMap 3 3) (coordsOf (plainsMap 3 3) 4) 1 None))
                          (getKnowledgeSpillover knowEnv plainsTile))))"
    by blast
  from n l k 1 a 2 show ?thesis by (intro conjI)
qed

subsection \<open>Visibility counters\<close>

lemma forEach_invariant:
  assumes "forEach f xs s = Some s'" "P s"
    and "\<And>a s s'. a \<in> set xs \<Longrightarrow> P s \<Longrightarrow> f a s = Some s' \<Longrightarrow> P s'"
  shows "P s'"
  using assms
proof (induction xs arbitrary: s)
  case Nil
  then show ?case by simp
next
  case (Cons a xs)
  from Cons.prems(1) obtain s1 where s1: "f a s = Some s1" "forEach f xs s1 = Some s'"
    by (auto split: option.splits)
  from Cons.prems(3) [OF _ Cons.prems(2) s1(1)] have p1: "P s1" by simp
  show ?case
  proof (rule Cons.IH [OF s1(2) p1])
    fix b t t' assume "b \<in> set xs" "P t" "f b t = Some t'"
    then show "P t'" using Cons.prems(3) [of b t t'] by simp
  qed
qed

subsubsection \<open>Line of sight sees every slot once\<close>

lemma getVisibleTilesRecurse_seenOnce:
  assumes "getVisibleTilesRecurse m c maxElevation slope r direction st stepsUntilSpread stepLength = Some st'"
    and "seenOnce m st"
  shows "seenOnce m st'"
  using assms
proof (induction m c maxElevation slope r direction st stepsUntilSpread stepLength arbitrary: st'
       rule: getVisibleTilesRecurse.induct)
  case (1 m c maxElevation slope r direction st stepsUntilSpread stepLength)
  note res = "1.prems"(1) and inv = "1.prems"(2)
  show ?case
  proof (cases "r > 0")
    case False
    with res have "st' = st" by (simp add: getVisibleTilesRecurse.simps [of m c maxElevation slope r])
    with inv show ?thesis by simp
  next
    case True
    with res obtain tile where tile: "getTile m c = Some tile"
      by (auto simp: getVisibleTilesRecurse.simps [of m c maxElevation slope r] split: option.splits)
    define st1 where "st1 = (if pos m c \<notin> set (seen st) \<and> getTotalElevation tile \<ge> maxElevation
                         then st\<lparr>coordsArray := coordsArray st @ [c], seen := pos m c # seen st\<rparr>
                         else st)"
    have inv1: "seenOnce m st1" using inv by (auto simp: st1_def seenOnce_def)
    show ?thesis
    proof (cases "stepsUntilSpread = 0")
      case spread: True
      let ?f = "(\<lambda>d s.
                       (case getTile m (getCoordInDirection c d) of
                          None \<Rightarrow> None
                        | Some nextTile \<Rightarrow>
                            getVisibleTilesRecurse m (getCoordInDirection c d) (maxElevation + slope)
                              (max slope (getTotalElevation nextTile - maxElevation))
                              (r - 1) direction s stepLength stepLength))"
      from res True tile spread have fe: "forEach ?f [direction - 1, direction, direction + 1] st1 = Some st'"
        by (simp add: getVisibleTilesRecurse.simps [of m c maxElevation slope r] st1_def Let_def)
      show ?thesis
      proof (rule forEach_invariant [where P = "seenOnce m", OF fe inv1])
        fix d s s'
        assume d: "d \<in> set [direction - 1, direction, direction + 1]" and s: "seenOnce m s"
          and f: "?f d s = Some s'"
        from f obtain nt where nt: "getTile m (getCoordInDirection c d) = Some nt"
          by (auto split: option.splits)
        with f have rec: "getVisibleTilesRecurse m (getCoordInDirection c d) (maxElevation + slope)
                              (max slope (getTotalElevation nt - maxElevation))
                              (r - 1) direction s stepLength stepLength = Some s'" by simp
        from "1.IH"(1) [OF True tile st1_def spread d nt rec s]
        show "seenOnce m s'" .
      qed
    next
      case nospread: False
      from res True tile nospread obtain nt where nt: "getTile m (getCoordInDirection c direction) = Some nt"
        and rec: "getVisibleTilesRecurse m (getCoordInDirection c direction) (maxElevation + slope)
                          (max slope (getTotalElevation nt - maxElevation))
                          (r - 1) direction st1 (stepsUntilSpread - 1) stepLength = Some st'"
        by (auto simp: getVisibleTilesRecurse.simps [of m c maxElevation slope r] st1_def Let_def split: option.splits)
      from "1.IH"(2) [OF True tile st1_def nospread nt rec inv1]
      show ?thesis .
    qed
  qed
qed

lemma getVisibleTilesCoords_distinct:
  assumes "getVisibleTilesCoords m u r = Some cs"
  shows "distinct (map (pos m) cs)"
proof -
  from assms obtain tile where tile: "getTile m (coords u) = Some tile"
    by (auto simp: getVisibleTilesCoords_def split: option.splits)
  let ?f = "(\<lambda>direction s.
                (case getTile m (getCoordInDirection (coords u) direction) of
                   None \<Rightarrow> None
                 | Some nextTile \<Rightarrow>
                     (let slope = getTotalElevation nextTile - getTotalElevation tile
                      in getVisibleTilesRecurse m (getCoordInDirection (coords u) direction)
                           (getTotalElevation tile + slope) slope
                           (case r of Some r' \<Rightarrow> r' | None \<Rightarrow> visionRange u)
                           direction s 0 1)))"
  let ?s0 = "\<lparr>coordsArray = [coords u], seen = [pos m (coords u)]\<rparr>"
  from assms tile obtain st where fe: "forEach ?f [0, 1, 2, 3, 4, 5] ?s0 = Some st"
    and cs: "cs = coordsArray st"
    by (auto simp: getVisibleTilesCoords_def)
  have i0: "seenOnce m ?s0" by (simp add: seenOnce_def)
  have "seenOnce m st"
  proof (rule forEach_invariant [where P = "seenOnce m", OF fe i0])
    fix d s s'
    assume s: "seenOnce m s" and f: "?f d s = Some s'"
    from f obtain nt where nt: "getTile m (getCoordInDirection (coords u) d) = Some nt"
      by (auto split: option.splits)
    with f have "getVisibleTilesRecurse m (getCoordInDirection (coords u) d)
                           (getTotalElevation tile + (getTotalElevation nt - getTotalElevation tile))
                           (getTotalElevation nt - getTotalElevation tile)
                           (case r of Some r' \<Rightarrow> r' | None \<Rightarrow> visionRange u)
                           d s 0 1 = Some s'" by (simp add: Let_def)
    then show "seenOnce m s'" using s by (rule getVisibleTilesRecurse_seenOnce)
  qed
  with cs show ?thesis by (simp add: seenOnce_def)
qed

subsubsection \<open>One counter\<close>

lemma pos_width: "width m' = width m \<Longrightarrow> pos m' c = pos m c"
  by (simp add: pos_def)

lemma counterOK_incr: "counterOK v \<Longrightarrow> counterOK (Some (incr_js v))"
  by (cases v rule: counterOK.cases) simp_all

lemma counterOK_decr: "counterPositive v \<Longrightarrow> counterOK (Some (decr_js v))"
  by (cases v rule: counterOK.cases) simp_all

lemma visibleTo_setVisibility_other:
  "civ' \<noteq> civ \<Longrightarrow> visibleTo (setVisibility t civ' v) civ = visibleTo t civ"
  by (simp add: setVisibility_def Let_def)

lemma counterOK_setVisibility_True:
  "counterOK (visibleTo t civ) \<Longrightarrow> counterOK (visibleTo (setVisibility t civ' True) civ)"
  by (cases "civ' = civ") (simp_all add: setVisibility_def Let_def counterOK_incr)

lemma counterOK_setVisibility_False:
  "counterOK (visibleTo t civ) \<Longrightarrow> (civ' = civ \<longrightarrow> counterPositive (visibleTo t civ))
   \<Longrightarrow> counterOK (visibleTo (setVisibility t civ' False) civ)"
  by (cases "civ' = civ") (simp_all add: setVisibility_def Let_def counterOK_decr)

subsubsection \<open>Counters kept slot by slot\<close>

lemma counters_length: "length (counters m civ) = length (tiles m)"
  by (simp add: counters_def)

lemma counters_tiles: "tiles m' = tiles m \<Longrightarrow> counters m' civ = counters m civ"
  by (simp add: counters_def)

lemma getTile_slot:
  assumes "getTile m c = Some t"
  shows "0 \<le> pos m c" and "nat (pos m c) < length (tiles m)"
    and "tiles m ! nat (pos m c) = Some t"
    and "counters m civ ! nat (pos m c) = visibleTo t civ"
proof -
  from assms show r: "0 \<le> pos m c" and l: "nat (pos m c) < length (tiles m)"
    and t: "tiles m ! nat (pos m c) = Some t"
    by (simp_all add: getTile_def Let_def split: if_splits)
  from l t show "counters m civ ! nat (pos m c) = visibleTo t civ" by (simp add: counters_def)
qed

lemma counters_putTile:
  "counters (putTile m c t) civ = (counters m civ)[nat (pos m c) := visibleTo t civ]"
  by (simp add: counters_def putTile_def map_update)

lemma counters_putTile_same:
  assumes "getTile m c = Some t0" "visibleTo t civ = visibleTo t0 civ"
  shows "counters (putTile m c t) civ = counters m civ"
proof -
  from getTile_slot(4) [OF assms(1), of civ] assms(2)
  have "(counters m civ)[nat (pos m c) := visibleTo t civ] = counters m civ"
    by (simp add: list_update_same_conv getTile_slot(2) [OF assms(1)] counters_length)
  then show ?thesis by (simp add: counters_putTile)
qed

lemma countersKept_refl: "countersKept civ m m"
  by (simp add: countersKept_def)

lemma countersKept_trans: "countersKept civ m m1 \<Longrightarrow> countersKept civ m1 m2 \<Longrightarrow> countersKept civ m m2"
  by (simp add: countersKept_def)

lemma countersKept_eq: "counters m' civ = counters m civ \<Longrightarrow> countersKept civ m m'"
  using counters_length [of m' civ] counters_length [of m civ] by (simp add: countersKept_def)

lemma countersKept_putTile:
  assumes "getTile m c = Some t0" "tiles m1 = tiles m" "width m1 = width m"
    and "counterOK (visibleTo t0 civ) \<Longrightarrow> counterOK (visibleTo t civ)"
  shows "countersKept civ m (putTile m1 c t)"
proof -
  have p: "pos m1 c = pos m c" using assms(3) by (rule pos_width)
  have c: "counters (putTile m1 c t) civ = (counters m civ)[nat (pos m c) := visibleTo t civ]"
    by (simp add: counters_putTile p counters_tiles [OF assms(2)])
  have "counterOK (counters (putTile m1 c t) civ ! q)"
    if q: "q < length (tiles m)" and ok: "counterOK (counters m civ ! q)" for q
  proof (cases "q = nat (pos m c)")
    case True
    with ok getTile_slot(4) [OF assms(1), of civ] have "counterOK (visibleTo t0 civ)" by simp
    then have "counterOK (visibleTo t civ)" by (rule assms(4))
    with True q show ?thesis by (simp add: c counters_length)
  next
    case False
    with ok show ?thesis by (simp add: c)
  qed
  then show ?thesis by (simp add: countersKept_def assms(2))
qed

lemma setTileOwner_False_kept:
  assumes "setTileOwner m c ow False = Some m'"
  shows "countersKept civ m m'"
proof -
  from assms(1) obtain tile where tile: "getTile m c = Some tile"
    by (auto simp: setTileOwner_def split: option.splits)
  show ?thesis
  proof (cases "owner tile")
    case (Some old)
    with assms tile have "m' = m" by (simp add: setTileOwner_def split: if_splits)
    then show ?thesis by (simp add: countersKept_refl)
  next
    case None
    let ?cs = "(cities m)[ow := addTile (cities m ! ow) c]"
    let ?t = "setVisibility (tile\<lparr>owner := Some ow\<rparr>) (c_civID (cities m ! ow)) True"
    from assms(1) tile None have m': "m' = putTile (m\<lparr>cities := ?cs\<rparr>) c ?t"
      by (simp add: setTileOwner_def Let_def split: if_splits)
    have "countersKept civ m (putTile (m\<lparr>cities := ?cs\<rparr>) c ?t)"
    proof (rule countersKept_putTile [OF tile])
      assume "counterOK (visibleTo tile civ)"
      then show "counterOK (visibleTo ?t civ)" by (simp add: counterOK_setVisibility_True)
    qed simp_all
    with m' show ?thesis by simp
  qed
qed

lemma setTileOwner_True_kept:
  assumes "setTileOwner m c ow True = Some m'" "getTile m c = Some tile"
    and "owner tile = None \<or> (\<exists>old. owner tile = Some old
            \<and> counterPositive (visibleTo tile (c_civID (cities m ! old))))"
  shows "countersKept civ m m'"
proof (cases "owner tile")
  case None
  let ?cs = "(cities m)[ow := addTile (cities m ! ow) c]"
  let ?t = "setVisibility (tile\<lparr>owner := Some ow\<rparr>) (c_civID (cities m ! ow)) True"
  from assms(1,2) None have m': "m' = putTile (m\<lparr>cities := ?cs\<rparr>) c ?t"
    by (simp add: setTileOwner_def Let_def split: if_splits)
  have "countersKept civ m (putTile (m\<lparr>cities := ?cs\<rparr>) c ?t)"
  proof (rule countersKept_putTile [OF assms(2)])
    assume "counterOK (visibleTo tile civ)"
    then show "counterOK (visibleTo ?t civ)" by (simp add: counterOK_setVisibility_True)
  qed simp_all
  with m' show ?thesis by simp
next
  case (Some old)
  with assms(3) have pos: "counterPositive (visibleTo tile (c_civID (cities m ! old)))" by simp
  let ?cs1 = "(cities m)[old := removeTile (cities m ! old) c]"
  let ?t1 = "setVisibility tile (c_civID (?cs1 ! old)) False"
  let ?t3 = "setVisibility (?t1\<lparr>owner := Some ow\<rparr>) (c_civID (?cs1 ! ow)) True"
  let ?cs2 = "?cs1[ow := addTile (?cs1 ! ow) c]"
  from assms(1,2) Some have lt: "old < length (cities m)" and m': "m' = putTile (m\<lparr>cities := ?cs2\<rparr>) c ?t3"
    by (simp_all add: setTileOwner_def Let_def split: if_splits)
  have civ1: "c_civID (?cs1 ! old) = c_civID (cities m ! old)" using lt by (simp add: removeTile_def)
  have "countersKept civ m (putTile (m\<lparr>cities := ?cs2\<rparr>) c ?t3)"
  proof (rule countersKept_putTile [OF assms(2)])
    assume ok: "counterOK (visibleTo tile civ)"
    have "counterOK (visibleTo (setVisibility tile (c_civID (cities m ! old)) False) civ)"
      using ok pos by (intro counterOK_setVisibility_False) auto
    then have "counterOK (visibleTo ?t1 civ)" by (simp only: civ1)
    then show "counterOK (visibleTo ?t3 civ)"
      using counterOK_setVisibility_True [of "?t1\<lparr>owner := Some ow\<rparr>" civ "c_civID (?cs1 ! ow)"]
      by simp
  qed simp_all
  with m' show ?thesis by simp
qed

lemma buildImprovementAt_counters:
  assumes "buildImprovementAt m c ty ownerID = Some m'"
  shows "counters m' civ = counters m civ"
proof -
  from assms(1) obtain tile where tile: "getTile m c = Some tile"
    by (auto simp: buildImprovementAt_def split: option.splits)
  let ?t = "tile\<lparr>improvement := Some (newImprovement ty (baseYield tile))\<rparr>"
  from assms(1) tile have "m' = m \<or> m' = tileUpdate (putTile m c ?t) c"
    by (auto simp: buildImprovementAt_def split: if_splits)
  moreover have "counters (tileUpdate (putTile m c ?t) c) civ = counters m civ"
    using counters_putTile_same [OF tile, of ?t civ] by (simp add: counters_def)
  ultimately show ?thesis by auto
qed

lemma settleCityAt_kept:
  assumes "settleCityAt m c n civID = Some (m', ok)"
  shows "countersKept civ m m'"
proof (cases "m' = m")
  case True
  then show ?thesis by (simp add: countersKept_refl)
next
  case False
  let ?city = "length (cities m)"
  let ?m1 = "m\<lparr>cities := cities m @ [newCity c n civID]\<rparr>"
  from assms(1) False obtain m2 where
    loop: "forEach (settleNeighbor ?city) (getNeighborsCoords ?m1 c 1 None) ?m1 = Some m2"
    and build: "buildImprovementAt m2 c ''settlement'' civID = Some m'"
    by (auto simp: settleCityAt_def Let_def split: option.splits if_splits)
  have 1: "countersKept civ m ?m1" by (rule countersKept_eq) (simp add: counters_def)
  have "countersKept civ m m2"
  proof (rule forEach_invariant [where P = "\<lambda>s. countersKept civ m s", OF loop 1])
    fix a s s' assume s: "countersKept civ m s" and f: "settleNeighbor ?city a s = Some s'"
    from settleNeighbor_Some [OF f] obtain s1 where
      s1: "setTileOwner s a ?city False = Some s1" "s' = tileUpdate s1 a" by blast
    from setTileOwner_False_kept [OF s1(1), of civ] have "countersKept civ s s1" .
    moreover have "countersKept civ s1 s'" by (rule countersKept_eq) (simp add: s1(2) counters_def)
    ultimately show "countersKept civ m s'" using s by (blast intro: countersKept_trans)
  qed
  moreover have "countersKept civ m2 m'"
    using buildImprovementAt_counters [OF build, of civ] by (rule countersKept_eq)
  ultimately show ?thesis by (rule countersKept_trans)
qed

lemma onImprovement_counters: "counters (onImprovement m p f) civ = counters m civ"
proof (cases "atSlot m p")
  case None
  then show ?thesis by (simp add: onImprovement_def)
next
  case (Some t)
  then have r: "nat p < length (tiles m)" and t: "tiles m ! nat p = Some t"
    by (simp_all add: atSlot_def split: if_splits)
  let ?t = "t\<lparr>improvement := map_option f (improvement t)\<rparr>"
  have "counters (m\<lparr>tiles := (tiles m)[nat p := Some ?t]\<rparr>) civ
      = (counters m civ)[nat p := visibleTo ?t civ]"
    by (simp add: counters_def map_update)
  also have "\<dots> = counters m civ"
    using r t by (simp add: list_update_same_conv counters_def)
  finally show ?thesis using Some by (simp add: onImprovement_def)
qed

lemma newTrader_counters: "counters (fst (newTrader civID r src snk spd cp m)) civ = counters m civ"
  by (simp add: newTrader_def Let_def onImprovement_counters) (simp add: counters_def)

lemma tradeRouteStep_counters:
  assumes "tradeRouteStep env civID c requirement pathTree dst' p m = Some m'"
  shows "counters m' civ = counters m civ"
proof (cases "m' = m")
  case True
  then show ?thesis by simp
next
  case False
  with assms(1) obtain r where
    "m' = addTrader (fst (newTrader civID r p (pos m c) TRADER_SPEED (min_Yield TRADER_CAPACITY requirement) m))
           (snd (newTrader civID r p (pos m c) TRADER_SPEED (min_Yield TRADER_CAPACITY requirement) m))"
    by (auto simp: tradeRouteStep_def Let_def split_beta split: option.splits if_splits)
  then have "counters m' civ
      = counters (fst (newTrader civID r p (pos m c) TRADER_SPEED (min_Yield TRADER_CAPACITY requirement) m)) civ"
    by (simp add: addTrader_def counters_def)
  then show ?thesis by (simp only: newTrader_counters)
qed

lemma createTradeRoutes_counters:
  assumes "createTradeRoutes env m civID c requirement range' mode = Some m'"
  shows "counters m' civ = counters m civ"
proof -
  from assms(1) obtain pathTree dst' where
    fe: "forEach (tradeRouteStep env civID c requirement pathTree dst')
            (sort_key (\<lambda>p. case dst' p of Some d \<Rightarrow> d | None \<Rightarrow> 0) (objectKeys m c dst')) m = Some m'"
    by (auto simp: createTradeRoutes_def split: option.splits)
  show ?thesis
  proof (rule forEach_invariant [where P = "\<lambda>s. counters s civ = counters m civ", OF fe refl])
    fix a s s'
    assume "counters s civ = counters m civ"
      and "tradeRouteStep env civID c requirement pathTree dst' a s = Some s'"
    then show "counters s' civ = counters m civ" by (simp add: tradeRouteStep_counters)
  qed
qed

lemma startErrandAt_counters:
  assumes "getTile m c = Some t0" "visibleTo tile civ = visibleTo t0 civ"
  shows "counters (startErrandAt env m c tile i a) civ = counters m civ"
proof -
  have "counters (startErrandAt env m c tile i a) civ
      = counters (putTile m c (tile\<lparr>improvement := Some (startErrand env i a)\<rparr>)) civ"
    by (simp add: startErrandAt_def counters_def)
  also have "\<dots> = counters m civ"
    by (rule counters_putTile_same [OF assms(1)]) (simp add: assms(2))
  finally show ?thesis .
qed

lemma trainUnitAt_counters:
  assumes "trainUnitAt env m c unitType ownerID = Some m'"
  shows "counters m' civ = counters m civ"
proof -
  from assms(1) obtain tile where tile: "getTile m c = Some tile"
    by (auto simp: trainUnitAt_def split: option.splits)
  from assms(1) tile obtain m1 where m': "m' = tileUpdate m1 c"
    and m1: "m1 = m \<or> (\<exists>i a. createTradeRoutes env (startErrandAt env m c tile i a) ownerID c
                           (cost (newWorkErrand env a)) 5 LAND = Some m1)"
    by (auto simp: trainUnitAt_def Let_def split: option.splits if_splits)
  from m1 have "counters m1 civ = counters m civ"
    using createTradeRoutes_counters [of env _ ownerID c _ 5 LAND m1 civ]
      startErrandAt_counters [OF tile refl, where civ = civ and env = env] by auto
  with m' show ?thesis by (simp add: counters_def)
qed

lemma researchKnowledgeAt_counters:
  assumes "researchKnowledgeAt env m c knowledgeName ownerID = Some m'"
  shows "counters m' civ = counters m civ"
proof -
  from assms(1) obtain tile where tile: "getTile m c = Some tile"
    by (auto simp: researchKnowledgeAt_def split: option.splits)
  from assms(1) tile obtain m1 where m': "m' = tileUpdate m1 c"
    and m1: "m1 = m \<or> (\<exists>i a. createTradeRoutes env (startErrandAt env m c tile i a) ownerID c
                           (cost (newWorkErrand env a)) 5 LAND = Some m1)"
    by (auto simp: researchKnowledgeAt_def Let_def split: option.splits if_splits)
  from m1 have "counters m1 civ = counters m civ"
    using createTradeRoutes_counters [of env _ ownerID c _ 5 LAND m1 civ]
      startErrandAt_counters [OF tile refl, where civ = civ and env = env] by auto
  with m' show ?thesis by (simp add: counters_def)
qed

lemma startConstructionAt_counters:
  assumes "startConstructionAt env m c improvementType ownerID = Some m'"
  shows "counters m' civ = counters m civ"
proof (cases "m' = m")
  case True
  then show ?thesis by simp
next
  case False
  from assms(1) obtain tile where tile: "getTile m c = Some tile"
    by (auto simp: startConstructionAt_def split: option.splits)
  let ?i = "newImprovement ''worksite'' (baseYield tile)"
  let ?t1 = "tile\<lparr>improvement := Some ?i\<rparr>"
  let ?a = "\<lparr>a_type = CONSTRUCTION, a_option = improvementType, a_location = None\<rparr>"
  from assms(1) tile False obtain m2 where m': "m' = tileUpdate m2 c"
    and m2: "createTradeRoutes env (startErrandAt env (putTile m c ?t1) c ?t1 ?i ?a) ownerID c
               (cost (newWorkErrand env ?a)) 5 LAND = Some m2"
    by (auto simp: startConstructionAt_def Let_def split: if_splits)
  have 1: "counters (putTile m c ?t1) civ = counters m civ"
    by (rule counters_putTile_same [OF tile]) simp
  have g: "getTile (putTile m c ?t1) c = Some ?t1" by (simp add: getTile_putTile [OF tile])
  have 2: "counters (startErrandAt env (putTile m c ?t1) c ?t1 ?i ?a) civ = counters (putTile m c ?t1) civ"
    by (rule startErrandAt_counters [OF g refl])
  from createTradeRoutes_counters [OF m2, of civ] 1 2 m'
  show ?thesis by (simp add: counters_def)
qed

lemma clearAll_counters_other:
  assumes "clearAll civID (tiles m) = Some ts" "civ \<noteq> civID"
  shows "counters (m\<lparr>tiles := ts\<rparr>) civ = counters m civ"
proof -
  from assms(1) have ts: "ts = map (map_option (\<lambda>t. clearVisibility t civID)) (tiles m)"
    by (simp add: clearAll_def split: if_splits)
  have "(case map_option (\<lambda>t. clearVisibility t civID) t of None \<Rightarrow> None | Some t' \<Rightarrow> visibleTo t' civ)
      = (case t of None \<Rightarrow> None | Some t' \<Rightarrow> visibleTo t' civ)" for t
    using assms(2) by (cases t) (simp_all add: clearVisibility_def)
  then show ?thesis by (simp add: counters_def ts)
qed

lemma lightOn_counters_other:
  assumes "lightOn civID c m = Some m'" "civ \<noteq> civID"
  shows "counters m' civ = counters m civ"
proof -
  from assms(1) obtain t where t: "getTile m c = Some t" and m': "m' = putTile m c (setVisibility t civID True)"
    by (auto simp: lightOn_def split: option.splits)
  have "visibleTo (setVisibility t civID True) civ = visibleTo t civ"
    using assms(2) by (simp add: visibleTo_setVisibility_other)
  from counters_putTile_same [OF t this] m' show ?thesis by simp
qed

lemma updateCivTileVisibility_others:
  assumes "updateCivTileVisibility m civID units = Some m'" "civ \<noteq> civID"
  shows "counters m' civ = counters m civ"
proof -
  from assms obtain ts where c: "clearAll civID (tiles m) = Some ts"
    and r: "forEach (\<lambda>u m'. forEach (lightOn civID) (getNeighborsCoords m' (coords u) 3 None) m')
              units (m\<lparr>tiles := ts\<rparr>) = Some m'"
    by (auto simp: updateCivTileVisibility_def split: option.splits)
  have 0: "counters (m\<lparr>tiles := ts\<rparr>) civ = counters m civ"
    using c assms(2) by (rule clearAll_counters_other)
  show ?thesis
  proof (rule forEach_invariant [where P = "\<lambda>s. counters s civ = counters m civ", OF r 0])
    fix u s s'
    assume s: "counters s civ = counters m civ"
      and f: "forEach (lightOn civID) (getNeighborsCoords s (coords u) 3 None) s = Some s'"
    show "counters s' civ = counters m civ"
    proof (rule forEach_invariant [where P = "\<lambda>s. counters s civ = counters m civ", OF f s])
      fix a t t'
      assume "counters t civ = counters m civ" and "lightOn civID a t = Some t'"
      then show "counters t' civ = counters m civ"
        using lightOn_counters_other [of civID a t t' civ] assms(2) by simp
    qed
  qed
qed

lemma visibleTo_setVisibility:
  "visibleTo (setVisibility t civID v) civ
     = (if civ = civID then Some (if v then incr_js (visibleTo t civ) else decr_js (visibleTo t civ))
        else visibleTo t civ)"
  by (simp add: setVisibility_def Let_def)

lemma setTileVisibility_counters:
  assumes "setTileVisibility civID v a m = Some m1"
  shows "width m1 = width m" and "length (tiles m1) = length (tiles m)"
    and "0 \<le> pos m a" and "nat (pos m a) < length (tiles m)"
    and "counters m1 civ = (counters m civ)[nat (pos m a) :=
           (if civ = civID
            then Some (if v then incr_js (counters m civ ! nat (pos m a))
                       else decr_js (counters m civ ! nat (pos m a)))
            else counters m civ ! nat (pos m a))]"
proof -
  from assms obtain t where t: "getTile m a = Some t"
    and m1: "m1 = tileUpdate (putTile m a (setVisibility t civID v)) a"
    by (auto simp: setTileVisibility_def split: option.splits)
  show "width m1 = width m" "length (tiles m1) = length (tiles m)" by (simp_all add: m1)
  from getTile_slot [OF t] show "0 \<le> pos m a" "nat (pos m a) < length (tiles m)" by simp_all
  have "counters m1 civ = counters (putTile m a (setVisibility t civID v)) civ"
    by (simp add: m1 counters_def)
  then show "counters m1 civ = (counters m civ)[nat (pos m a) :=
           (if civ = civID
            then Some (if v then incr_js (counters m civ ! nat (pos m a))
                       else decr_js (counters m civ ! nat (pos m a)))
            else counters m civ ! nat (pos m a))]"
    by (simp only: counters_putTile visibleTo_setVisibility getTile_slot(4) [OF t])
qed

lemma light_loop:
  assumes "forEach (setTileVisibility civID v) cs m = Some m'" "distinct (map (pos m) cs)"
  shows "width m' = width m \<and> length (tiles m') = length (tiles m)
     \<and> (\<forall>p < length (tiles m). counters m' civ ! p
          = (if civ = civID \<and> int p \<in> pos m ` set cs
             then Some (if v then incr_js (counters m civ ! p) else decr_js (counters m civ ! p))
             else counters m civ ! p))"
  using assms
proof (induction cs arbitrary: m)
  case Nil
  then show ?case by simp
next
  case (Cons a cs)
  from Cons.prems(1) obtain m1 where s: "setTileVisibility civID v a m = Some m1"
    and r: "forEach (setTileVisibility civID v) cs m1 = Some m'"
    by (auto split: option.splits)
  note f = setTileVisibility_counters [OF s]
  have pe: "pos m1 = pos m" by (rule ext) (rule pos_width [OF f(1)])
  from Cons.prems(2) have d1: "distinct (map (pos m1) cs)" and na: "pos m a \<notin> pos m ` set cs"
    by (simp_all add: pe)
  from Cons.IH [OF r d1] have w: "width m' = width m1" and l: "length (tiles m') = length (tiles m1)"
    and ih: "\<forall>p < length (tiles m1). counters m' civ ! p
          = (if civ = civID \<and> int p \<in> pos m ` set cs
             then Some (if v then incr_js (counters m1 civ ! p) else decr_js (counters m1 civ ! p))
             else counters m1 civ ! p)"
    by (simp_all add: pe)
  have "counters m' civ ! p
          = (if civ = civID \<and> int p \<in> pos m ` set (a # cs)
             then Some (if v then incr_js (counters m civ ! p) else decr_js (counters m civ ! p))
             else counters m civ ! p)" if p: "p < length (tiles m)" for p
  proof (cases "p = nat (pos m a)")
    case True
    with f(3) have ip: "int p = pos m a" by simp
    with na have "int p \<notin> pos m ` set cs" by simp
    with ih p f(2) have "counters m' civ ! p = counters m1 civ ! p" by simp
    also have "\<dots> = (if civ = civID
            then Some (if v then incr_js (counters m civ ! p) else decr_js (counters m civ ! p))
            else counters m civ ! p)"
      using p True by (simp add: f(5) [of civ] counters_length)
    finally show ?thesis using ip by simp
  next
    case False
    with f(3) have ip: "int p \<noteq> pos m a" by auto
    from False have e: "counters m1 civ ! p = counters m civ ! p" by (simp add: f(5) [of civ])
    from ip have s: "(int p \<in> pos m ` set (a # cs)) = (int p \<in> pos m ` set cs)" by auto
    from ih p f(2) have "counters m' civ ! p
          = (if civ = civID \<and> int p \<in> pos m ` set cs
             then Some (if v then incr_js (counters m1 civ ! p) else decr_js (counters m1 civ ! p))
             else counters m1 civ ! p)" by simp
    then show ?thesis unfolding e s .
  qed
  with w l f(1,2) show ?case by simp
qed

subsubsection \<open>Line of sight depends on the relief only\<close>

lemma sameRelief_refl: "sameRelief m m"
  by (simp add: sameRelief_def)

lemma sameRelief_None: "sameRelief m m' \<Longrightarrow> getTile m c = None \<Longrightarrow> getTile m' c = None"
  by (metis sameRelief_def option.map_disc_iff)

lemma sameRelief_Some:
  assumes "sameRelief m m'" "getTile m c = Some t"
  shows "\<exists>t'. getTile m' c = Some t' \<and> getTotalElevation t' = getTotalElevation t"
proof -
  from assms have "map_option getTotalElevation (getTile m' c) = Some (getTotalElevation t)"
    by (simp add: sameRelief_def)
  then show ?thesis by (cases "getTile m' c") simp_all
qed

lemma sameRelief_pos: "sameRelief m m' \<Longrightarrow> pos m' c = pos m c"
  by (simp add: sameRelief_def pos_def)

lemma getVisibleTilesRecurse_spread:
  assumes "0 < r" "getTile m c = Some tile"
  shows "getVisibleTilesRecurse m c maxElevation slope r direction st 0 stepLength
     = forEach (\<lambda>d s.
                       (case getTile m (getCoordInDirection c d) of
                          None \<Rightarrow> None
                        | Some nextTile \<Rightarrow>
                            getVisibleTilesRecurse m (getCoordInDirection c d) (maxElevation + slope)
                              (max slope (getTotalElevation nextTile - maxElevation))
                              (r - 1) direction s stepLength stepLength))
                     [direction - 1, direction, direction + 1] (sighted m c tile maxElevation st)"
  using assms
  by (simp add: getVisibleTilesRecurse.simps [of m c maxElevation slope r direction st 0] sighted_def Let_def
           del: forEach.simps)

lemma getVisibleTilesRecurse_ahead:
  assumes "0 < r" "getTile m c = Some tile" "stepsUntilSpread \<noteq> 0"
  shows "getVisibleTilesRecurse m c maxElevation slope r direction st stepsUntilSpread stepLength
     = (case getTile m (getCoordInDirection c direction) of
                      None \<Rightarrow> None
                    | Some nextTile \<Rightarrow>
                        getVisibleTilesRecurse m (getCoordInDirection c direction) (maxElevation + slope)
                          (max slope (getTotalElevation nextTile - maxElevation))
                          (r - 1) direction (sighted m c tile maxElevation st) (stepsUntilSpread - 1) stepLength)"
  unfolding sighted_def using assms
  by (simp add: getVisibleTilesRecurse.simps [of m c maxElevation slope r direction st stepsUntilSpread]
                Let_def split del: if_split)

lemma getVisibleTilesRecurse_relief:
  assumes "sameRelief m m'"
  shows "getVisibleTilesRecurse m' c maxElevation slope r direction st stepsUntilSpread stepLength
       = getVisibleTilesRecurse m c maxElevation slope r direction st stepsUntilSpread stepLength"
  using assms
proof (induction m c maxElevation slope r direction st stepsUntilSpread stepLength
       rule: getVisibleTilesRecurse.induct)
  case (1 m c maxElevation slope r direction st stepsUntilSpread stepLength)
  note rel = "1.prems"
  show ?case
  proof (cases "r > 0")
    case False
    then show ?thesis
      by (simp add: getVisibleTilesRecurse.simps [of m c maxElevation slope r]
                    getVisibleTilesRecurse.simps [of m' c maxElevation slope r])
  next
    case True
    show ?thesis
    proof (cases "getTile m c")
      case None
      with sameRelief_None [OF rel None] True show ?thesis
        by (simp add: getVisibleTilesRecurse.simps [of m c maxElevation slope r]
                      getVisibleTilesRecurse.simps [of m' c maxElevation slope r])
    next
      case (Some tile)
      from sameRelief_Some [OF rel Some] obtain tile' where
        t': "getTile m' c = Some tile'" and e: "getTotalElevation tile' = getTotalElevation tile" by blast
      have p: "pos m' c = pos m c" using rel by (rule sameRelief_pos)
      have sg: "sighted m' c tile' maxElevation st = sighted m c tile maxElevation st"
        by (simp add: sighted_def p e)
      have step: "(case getTile m' a of
                          None \<Rightarrow> None
                        | Some nextTile \<Rightarrow>
                            getVisibleTilesRecurse m' a (maxElevation + slope)
                              (max slope (getTotalElevation nextTile - maxElevation))
                              (r - 1) direction s k stepLength)
                = (case getTile m a of
                          None \<Rightarrow> None
                        | Some nextTile \<Rightarrow>
                            getVisibleTilesRecurse m a (maxElevation + slope)
                              (max slope (getTotalElevation nextTile - maxElevation))
                              (r - 1) direction s k stepLength)"
        if ih: "\<And>nt. getTile m a = Some nt \<Longrightarrow>
                 getVisibleTilesRecurse m' a (maxElevation + slope)
                              (max slope (getTotalElevation nt - maxElevation))
                              (r - 1) direction s k stepLength
               = getVisibleTilesRecurse m a (maxElevation + slope)
                              (max slope (getTotalElevation nt - maxElevation))
                              (r - 1) direction s k stepLength"
        for a s k
      proof (cases "getTile m a")
        case None
        with sameRelief_None [OF rel None] show ?thesis by simp
      next
        case nt: (Some nt)
        from sameRelief_Some [OF rel nt] obtain nt' where
          "getTile m' a = Some nt'" "getTotalElevation nt' = getTotalElevation nt" by blast
        with nt ih [OF nt] show ?thesis by simp
      qed
      show ?thesis
      proof (cases "stepsUntilSpread = 0")
        case spread: True
        have "forEach (\<lambda>d s.
                       (case getTile m' (getCoordInDirection c d) of
                          None \<Rightarrow> None
                        | Some nextTile \<Rightarrow>
                            getVisibleTilesRecurse m' (getCoordInDirection c d) (maxElevation + slope)
                              (max slope (getTotalElevation nextTile - maxElevation))
                              (r - 1) direction s stepLength stepLength))
                     [direction - 1, direction, direction + 1] (sighted m c tile maxElevation st)
            = forEach (\<lambda>d s.
                       (case getTile m (getCoordInDirection c d) of
                          None \<Rightarrow> None
                        | Some nextTile \<Rightarrow>
                            getVisibleTilesRecurse m (getCoordInDirection c d) (maxElevation + slope)
                              (max slope (getTotalElevation nextTile - maxElevation))
                              (r - 1) direction s stepLength stepLength))
                     [direction - 1, direction, direction + 1] (sighted m c tile maxElevation st)"
        proof (rule forEach_cong [OF refl refl])
          fix d s assume d: "d \<in> set [direction - 1, direction, direction + 1]"
          show "(case getTile m' (getCoordInDirection c d) of
                          None \<Rightarrow> None
                        | Some nextTile \<Rightarrow>
                            getVisibleTilesRecurse m' (getCoordInDirection c d) (maxElevation + slope)
                              (max slope (getTotalElevation nextTile - maxElevation))
                              (r - 1) direction s stepLength stepLength)
              = (case getTile m (getCoordInDirection c d) of
                          None \<Rightarrow> None
                        | Some nextTile \<Rightarrow>
                            getVisibleTilesRecurse m (getCoordInDirection c d) (maxElevation + slope)
                              (max slope (getTotalElevation nextTile - maxElevation))
                              (r - 1) direction s stepLength stepLength)"
          proof (rule step)
            fix nt assume nt: "getTile m (getCoordInDirection c d) = Some nt"
            from "1.IH"(1) [OF True Some sighted_def [of m c tile maxElevation st] spread d nt rel]
            show "getVisibleTilesRecurse m' (getCoordInDirection c d) (maxElevation + slope)
                              (max slope (getTotalElevation nt - maxElevation))
                              (r - 1) direction s stepLength stepLength
               = getVisibleTilesRecurse m (getCoordInDirection c d) (maxElevation + slope)
                              (max slope (getTotalElevation nt - maxElevation))
                              (r - 1) direction s stepLength stepLength" .
          qed
        qed
        then show ?thesis
          unfolding spread getVisibleTilesRecurse_spread [OF True Some]
            getVisibleTilesRecurse_spread [OF True t'] sg .
      next
        case nospread: False
        have "(case getTile m' (getCoordInDirection c direction) of
                      None \<Rightarrow> None
                    | Some nextTile \<Rightarrow>
                        getVisibleTilesRecurse m' (getCoordInDirection c direction) (maxElevation + slope)
                          (max slope (getTotalElevation nextTile - maxElevation))
                          (r - 1) direction (sighted m c tile maxElevation st) (stepsUntilSpread - 1) stepLength)
            = (case getTile m (getCoordInDirection c direction) of
                      None \<Rightarrow> None
                    | Some nextTile \<Rightarrow>
                        getVisibleTilesRecurse m (getCoordInDirection c direction) (maxElevation + slope)
                          (max slope (getTotalElevation nextTile - maxElevation))
                          (r - 1) direction (sighted m c tile maxElevation st) (stepsUntilSpread - 1) stepLength)"
        proof (rule step)
          fix nt assume nt: "getTile m (getCoordInDirection c direction) = Some nt"
          from "1.IH"(2) [OF True Some sighted_def [of m c tile maxElevation st] nospread nt rel]
          show "getVisibleTilesRecurse m' (getCoordInDirection c direction) (maxElevation + slope)
                              (max slope (getTotalElevation nt - maxElevation))
                              (r - 1) direction (sighted m c tile maxElevation st) (stepsUntilSpread - 1) stepLength
               = getVisibleTilesRecurse m (getCoordInDirection c direction) (maxElevation + slope)
                              (max slope (getTotalElevation nt - maxElevation))
                              (r - 1) direction (sighted m c tile maxElevation st) (stepsUntilSpread - 1) stepLength" .
        qed
        then show ?thesis
          unfolding getVisibleTilesRecurse_ahead [OF True Some nospread]
            getVisibleTilesRecurse_ahead [OF True t' nospread] sg .
      qed
    qed
  qed
qed

lemma getVisibleTilesCoords_relief:
  assumes "sameRelief m m'"
  shows "getVisibleTilesCoords m' u r = getVisibleTilesCoords m u r"
proof (cases "getTile m (coords u)")
  case None
  with sameRelief_None [OF assms None] show ?thesis by (simp add: getVisibleTilesCoords_def)
next
  case (Some tile)
  from sameRelief_Some [OF assms Some] obtain tile' where
    t': "getTile m' (coords u) = Some tile'" and e: "getTotalElevation tile' = getTotalElevation tile" by blast
  have p: "pos m' (coords u) = pos m (coords u)" using assms by (rule sameRelief_pos)
  let ?s0 = "\<lparr>coordsArray = [coords u], seen = [pos m (coords u)]\<rparr>"
  have "forEach (\<lambda>direction s.
                (case getTile m' (getCoordInDirection (coords u) direction) of
                   None \<Rightarrow> None
                 | Some nextTile \<Rightarrow>
                     (let slope = getTotalElevation nextTile - getTotalElevation tile
                      in getVisibleTilesRecurse m' (getCoordInDirection (coords u) direction)
                           (getTotalElevation tile + slope) slope
                           (case r of Some r' \<Rightarrow> r' | None \<Rightarrow> visionRange u)
                           direction s 0 1)))
               [0, 1, 2, 3, 4, 5] ?s0
      = forEach (\<lambda>direction s.
                (case getTile m (getCoordInDirection (coords u) direction) of
                   None \<Rightarrow> None
                 | Some nextTile \<Rightarrow>
                     (let slope = getTotalElevation nextTile - getTotalElevation tile
                      in getVisibleTilesRecurse m (getCoordInDirection (coords u) direction)
                           (getTotalElevation tile + slope) slope
                           (case r of Some r' \<Rightarrow> r' | None \<Rightarrow> visionRange u)
                           direction s 0 1)))
               [0, 1, 2, 3, 4, 5] ?s0"
  proof (rule forEach_cong [OF refl refl])
    fix d s
    show "(case getTile m' (getCoordInDirection (coords u) d) of
                   None \<Rightarrow> None
                 | Some nextTile \<Rightarrow>
                     (let slope = getTotalElevation nextTile - getTotalElevation tile
                      in getVisibleTilesRecurse m' (getCoordInDirection (coords u) d)
                           (getTotalElevation tile + slope) slope
                           (case r of Some r' \<Rightarrow> r' | None \<Rightarrow> visionRange u)
                           d s 0 1))
        = (case getTile m (getCoordInDirection (coords u) d) of
                   None \<Rightarrow> None
                 | Some nextTile \<Rightarrow>
                     (let slope = getTotalElevation nextTile - getTotalElevation tile
                      in getVisibleTilesRecurse m (getCoordInDirection (coords u) d)
                           (getTotalElevation tile + slope) slope
                           (case r of Some r' \<Rightarrow> r' | None \<Rightarrow> visionRange u)
                           d s 0 1))"
    proof (cases "getTile m (getCoordInDirection (coords u) d)")
      case None
      with sameRelief_None [OF assms None] show ?thesis by simp
    next
      case nt: (Some nt)
      from sameRelief_Some [OF assms nt] obtain nt' where
        "getTile m' (getCoordInDirection (coords u) d) = Some nt'"
        "getTotalElevation nt' = getTotalElevation nt" by blast
      with nt show ?thesis by (simp add: Let_def getVisibleTilesRecurse_relief [OF assms])
    qed
  qed
  then show ?thesis
    by (simp only: getVisibleTilesCoords_def Some t' option.case e p)
qed

lemma sameRelief_putTile:
  assumes "sameRelief m m1" "getTile m1 c = Some t0" "getTotalElevation t = getTotalElevation t0"
  shows "sameRelief m (putTile m1 c t)"
proof -
  have "map_option getTotalElevation (getTile (putTile m1 c t) a)
      = map_option getTotalElevation (getTile m a)" for a
  proof (cases "pos m1 a = pos m1 c")
    case True
    then have "getTile m1 a = getTile m1 c" by (rule getTile_pos_cong)
    with assms(1,2) have r: "map_option getTotalElevation (getTile m a) = Some (getTotalElevation t0)"
      by (metis sameRelief_def option.simps(9))
    have l: "getTile (putTile m1 c t) a = Some t" using True by (simp add: getTile_putTile [OF assms(2)])
    show ?thesis by (simp only: l r option.map assms(3))
  next
    case False
    with assms(1) show ?thesis by (simp add: getTile_putTile [OF assms(2)] sameRelief_def)
  qed
  with assms(1) show ?thesis by (simp add: sameRelief_def)
qed

lemma sameRelief_tileUpdate: "sameRelief m m1 \<Longrightarrow> sameRelief m (tileUpdate m1 c)"
  by (simp add: sameRelief_def)

lemma getTotalElevation_setVisibility [simp]:
  "getTotalElevation (setVisibility t civ v) = getTotalElevation t"
  by (simp add: getTotalElevation_def)

lemma getTotalElevation_setUnit [simp]:
  "getTotalElevation (setUnit t u) = getTotalElevation t"
  by (simp add: getTotalElevation_def setUnit_def)

lemma setTileVisibility_relief:
  assumes "setTileVisibility civID v a m1 = Some m2" "sameRelief m m1"
  shows "sameRelief m m2"
proof -
  from assms(1) obtain t where t: "getTile m1 a = Some t"
    and m2: "m2 = tileUpdate (putTile m1 a (setVisibility t civID v)) a"
    by (auto simp: setTileVisibility_def split: option.splits)
  have "sameRelief m (putTile m1 a (setVisibility t civID v))"
    using assms(2) t by (rule sameRelief_putTile) simp
  then show ?thesis unfolding m2 by (rule sameRelief_tileUpdate)
qed

subsubsection \<open>Moving a unit\<close>

lemma counters_tileUpdate: "counters (tileUpdate m c) civ = counters m civ"
  by (simp add: counters_def)

lemma relit_counterOK:
  assumes "counterOK n" "off \<Longrightarrow> counterPositive n"
  shows "counterOK (relit off on n)"
proof -
  have "counterOK (if off then Some (decr_js n) else n)"
    using assms by (simp add: counterOK_decr)
  then show ?thesis by (simp add: relit_def Let_def counterOK_incr)
qed

lemma case_option_Some:
  "(case v of None \<Rightarrow> None | Some a \<Rightarrow> g a) = Some b \<Longrightarrow> \<exists>a. v = Some a \<and> g a = Some b"
  by (cases v) simp_all

lemma moveUnitTo_counters:
  assumes "moveUnitTo m u c = Some (m', u')"
  shows "\<exists>srcVisible newVisible.
      getVisibleTilesCoords m u None = Some srcVisible
    \<and> getVisibleTilesCoords m (u\<lparr>coords := c\<rparr>) None = Some newVisible
    \<and> u' = u\<lparr>coords := c\<rparr>
    \<and> length (tiles m') = length (tiles m)
    \<and> (\<forall>p < length (tiles m). counters m' civ ! p
          = (if civ = u_civID u
             then relit (int p \<in> pos m ` set srcVisible) (int p \<in> pos m ` set newVisible) (counters m civ ! p)
             else counters m civ ! p))"
proof -
  from assms obtain srcVisible where sv: "getVisibleTilesCoords m u None = Some srcVisible"
    by (auto simp: moveUnitTo_def split: option.splits)
  from assms sv obtain m1 t0 where off: "forEach (setTileVisibility (u_civID u) False) srcVisible m = Some m1"
    and t0: "getTile m1 (coords u) = Some t0"
    by (auto simp: moveUnitTo_def split: option.splits)
  let ?m2 = "tileUpdate (putTile m1 (coords u) (setUnit t0 None)) (coords u)"
  let ?u = "u\<lparr>coords := c\<rparr>"
  from assms sv off t0 obtain t1 where t1: "getTile ?m2 c = Some t1"
    by (auto simp: moveUnitTo_def Let_def split: option.splits)
  let ?m3 = "tileUpdate (putTile ?m2 c (setUnit t1 (Some ?u))) c"
  have "(case getVisibleTilesCoords ?m3 ?u None of
           None \<Rightarrow> None
         | Some newVisible \<Rightarrow>
             map_option (\<lambda>m4. (m4, ?u))
               (forEach (setTileVisibility (u_civID ?u) True) newVisible ?m3)) = Some (m', u')"
    using assms unfolding moveUnitTo_def by (simp only: sv off t0 t1 option.case Let_def)
  from case_option_Some [OF this] obtain newVisible where
    nv: "getVisibleTilesCoords ?m3 ?u None = Some newVisible"
    and mo: "map_option (\<lambda>m4. (m4, ?u))
               (forEach (setTileVisibility (u_civID ?u) True) newVisible ?m3) = Some (m', u')"
    by blast
  from mo obtain m4 where on4: "forEach (setTileVisibility (u_civID ?u) True) newVisible ?m3 = Some m4"
    and pr: "(m4, ?u) = (m', u')"
    unfolding map_option_eq_Some by blast
  from pr have m4: "m4 = m'" and u': "u' = ?u" by simp_all
  from on4 have on: "forEach (setTileVisibility (u_civID ?u) True) newVisible ?m3 = Some m'"
    by (simp only: m4)
  note l1 = light_loop [OF off getVisibleTilesCoords_distinct [OF sv], of civ]
  have r1: "sameRelief m m1"
    by (rule forEach_invariant [where P = "sameRelief m", OF off sameRelief_refl])
       (rule setTileVisibility_relief)
  have r2: "sameRelief m ?m2"
    by (rule sameRelief_tileUpdate, rule sameRelief_putTile [OF r1 t0]) simp
  have r3: "sameRelief m ?m3"
    by (rule sameRelief_tileUpdate, rule sameRelief_putTile [OF r2 t1]) simp
  have nv': "getVisibleTilesCoords m ?u None = Some newVisible"
    using getVisibleTilesCoords_relief [OF r3, of ?u None] nv by simp
  have c2: "counters ?m2 civ = counters m1 civ"
    using counters_putTile_same [OF t0, of "setUnit t0 None" civ]
    by (simp add: counters_tileUpdate setUnit_def)
  have c3: "counters ?m3 civ = counters ?m2 civ"
    using counters_putTile_same [OF t1, of "setUnit t1 (Some ?u)" civ]
    by (simp add: counters_tileUpdate setUnit_def)
  have w3: "width ?m3 = width m" using l1 by simp
  have pe: "pos ?m3 = pos m" by (rule ext) (rule pos_width [OF w3])
  have len3: "length (tiles ?m3) = length (tiles m)" using l1 by simp
  from getVisibleTilesCoords_distinct [OF nv] have d2: "distinct (map (pos ?m3) newVisible)" .
  note l2 = light_loop [OF on d2, of civ]
  have len: "length (tiles m') = length (tiles m)" using l2 len3 by simp
  have "counters m' civ ! p
          = (if civ = u_civID u
             then relit (int p \<in> pos m ` set srcVisible) (int p \<in> pos m ` set newVisible) (counters m civ ! p)
             else counters m civ ! p)" if p: "p < length (tiles m)" for p
  proof -
    from l1 p have a: "counters m1 civ ! p
          = (if civ = u_civID u \<and> int p \<in> pos m ` set srcVisible
             then Some (decr_js (counters m civ ! p)) else counters m civ ! p)" by simp
    from l2 p len3 have b: "counters m' civ ! p
          = (if civ = u_civID u \<and> int p \<in> pos ?m3 ` set newVisible
             then Some (incr_js (counters ?m3 civ ! p)) else counters ?m3 civ ! p)" by simp
    have c: "counters ?m3 civ ! p = counters m1 civ ! p" by (simp only: c3 c2)
    show ?thesis unfolding b c a pe by (simp add: relit_def Let_def)
  qed
  with sv nv' u' len show ?thesis by blast
qed

subsubsection \<open>Changing the owner of a tile\<close>

lemma relit_on: "relit False True n = Some (incr_js n)"
  and relit_none: "relit False False n = n"
  by (simp_all add: relit_def)

lemma setTileOwner_counters:
  assumes "setTileOwner m c ow overwrite = Some m'" "getTile m c = Some tile"
  shows "counters m' civ
     = (if owner tile \<noteq> None \<and> \<not> overwrite then counters m civ
        else (counters m civ)[nat (pos m c) :=
               relit (\<exists>old. owner tile = Some old \<and> civ = c_civID (cities m ! old))
                     (civ = c_civID (cities m ! ow))
                     (counters m civ ! nat (pos m c))])"
proof -
  note v = getTile_slot(4) [OF assms(2), of civ]
  from assms have ow: "ow < length (cities m)"
    by (simp add: setTileOwner_def split: if_splits)
  show ?thesis
  proof (cases "owner tile")
    case None
    let ?cs = "(cities m)[ow := addTile (cities m ! ow) c]"
    let ?t = "setVisibility (tile\<lparr>owner := Some ow\<rparr>) (c_civID (cities m ! ow)) True"
    from assms None have m': "m' = putTile (m\<lparr>cities := ?cs\<rparr>) c ?t"
      by (simp add: setTileOwner_def Let_def split: if_splits)
    have "counters m' civ = (counters m civ)[nat (pos m c) := visibleTo ?t civ]"
      by (simp add: m' counters_putTile) (simp add: counters_def)
    moreover have "visibleTo ?t civ = relit False (civ = c_civID (cities m ! ow)) (visibleTo tile civ)"
      by (simp add: visibleTo_setVisibility relit_def)
    ultimately show ?thesis using None by (simp add: v)
  next
    case (Some old)
    show ?thesis
    proof (cases overwrite)
      case False
      with assms Some have "m' = m" by (simp add: setTileOwner_def split: if_splits)
      with Some False show ?thesis by simp
    next
      case True
      let ?cs1 = "(cities m)[old := removeTile (cities m ! old) c]"
      let ?t1 = "setVisibility tile (c_civID (?cs1 ! old)) False"
      let ?t3 = "setVisibility (?t1\<lparr>owner := Some ow\<rparr>) (c_civID (?cs1 ! ow)) True"
      let ?cs2 = "?cs1[ow := addTile (?cs1 ! ow) c]"
      from assms Some True have lt: "old < length (cities m)"
        and m': "m' = putTile (m\<lparr>cities := ?cs2\<rparr>) c ?t3"
        by (simp_all add: setTileOwner_def Let_def split: if_splits)
      have civ1: "c_civID (?cs1 ! old) = c_civID (cities m ! old)" using lt by (simp add: removeTile_def)
      have civ2: "c_civID (?cs1 ! ow) = c_civID (cities m ! ow)"
        using lt ow by (cases "ow = old") (simp_all add: removeTile_def)
      have "counters m' civ = (counters m civ)[nat (pos m c) := visibleTo ?t3 civ]"
        by (simp add: m' counters_putTile) (simp add: counters_def)
      moreover have "visibleTo ?t3 civ
          = relit (civ = c_civID (cities m ! old)) (civ = c_civID (cities m ! ow)) (visibleTo tile civ)"
        unfolding civ1 civ2 by (simp add: visibleTo_setVisibility relit_def Let_def)
      ultimately show ?thesis using Some True by (simp add: v)
    qed
  qed
qed

subsubsection \<open>Rebuilding the counters of a civ\<close>

lemma lightOn_counters:
  assumes "lightOn civID a m = Some m1"
  shows "width m1 = width m" and "length (tiles m1) = length (tiles m)"
    and "0 \<le> pos m a" and "nat (pos m a) < length (tiles m)"
    and "counters m1 civID = (counters m civID)[nat (pos m a) := Some (incr_js (counters m civID ! nat (pos m a)))]"
    and "sameShape m m1"
proof -
  from assms obtain t where t: "getTile m a = Some t"
    and m1: "m1 = putTile m a (setVisibility t civID True)"
    by (auto simp: lightOn_def split: option.splits)
  show "width m1 = width m" "length (tiles m1) = length (tiles m)" by (simp_all add: m1)
  from getTile_slot [OF t] show "0 \<le> pos m a" "nat (pos m a) < length (tiles m)" by simp_all
  show "counters m1 civID = (counters m civID)[nat (pos m a) := Some (incr_js (counters m civID ! nat (pos m a)))]"
    by (simp add: m1 counters_putTile visibleTo_setVisibility getTile_slot(4) [OF t])
  show "sameShape m m1" unfolding m1 using sameShape_refl t by (rule sameShape_putTile)
qed

lemma sameShape_trans: "sameShape m m1 \<Longrightarrow> sameShape m1 m2 \<Longrightarrow> sameShape m m2"
  by (simp add: sameShape_def)

lemma lightOn_loop:
  assumes "forEach (lightOn civID) cs m = Some m'" "distinct (map (pos m) cs)"
  shows "sameShape m m' \<and> length (tiles m') = length (tiles m)
     \<and> (\<forall>p < length (tiles m). counters m' civID ! p
          = (if int p \<in> pos m ` set cs then Some (incr_js (counters m civID ! p))
             else counters m civID ! p))"
  using assms
proof (induction cs arbitrary: m)
  case Nil
  then show ?case by (simp add: sameShape_refl)
next
  case (Cons a cs)
  from Cons.prems(1) obtain m1 where s: "lightOn civID a m = Some m1"
    and r: "forEach (lightOn civID) cs m1 = Some m'"
    by (auto split: option.splits)
  note f = lightOn_counters [OF s]
  have pe: "pos m1 = pos m" by (rule ext) (rule pos_width [OF f(1)])
  from Cons.prems(2) have d1: "distinct (map (pos m1) cs)" and na: "pos m a \<notin> pos m ` set cs"
    by (simp_all add: pe)
  from Cons.IH [OF r d1] have sh: "sameShape m1 m'" and l: "length (tiles m') = length (tiles m1)"
    and ih: "\<forall>p < length (tiles m1). counters m' civID ! p
          = (if int p \<in> pos m ` set cs then Some (incr_js (counters m1 civID ! p))
             else counters m1 civID ! p)"
    by (simp_all add: pe)
  have "counters m' civID ! p
          = (if int p \<in> pos m ` set (a # cs) then Some (incr_js (counters m civID ! p))
             else counters m civID ! p)" if p: "p < length (tiles m)" for p
  proof (cases "p = nat (pos m a)")
    case True
    with f(3) have ip: "int p = pos m a" by simp
    with na have "int p \<notin> pos m ` set cs" by simp
    with ih p f(2) have "counters m' civID ! p = counters m1 civID ! p" by simp
    also have "\<dots> = Some (incr_js (counters m civID ! p))"
      using p True by (simp add: f(5) counters_length)
    finally show ?thesis using ip by simp
  next
    case False
    with f(3) have ip: "int p \<noteq> pos m a" by auto
    from False have e: "counters m1 civID ! p = counters m civID ! p" by (simp add: f(5))
    from ip have s: "(int p \<in> pos m ` set (a # cs)) = (int p \<in> pos m ` set cs)" by auto
    from ih p f(2) have "counters m' civID ! p
          = (if int p \<in> pos m ` set cs then Some (incr_js (counters m1 civID ! p))
             else counters m1 civID ! p)" by simp
    then show ?thesis unfolding e s .
  qed
  with sameShape_trans [OF f(6) sh] l f(2) show ?case by simp
qed

lemma relight_counters:
  assumes "forEach (\<lambda>u s. forEach (lightOn civID) (getNeighborsCoords s (coords u) 3 None) s) units s = Some s'"
    and "sameShape m s" "length (tiles s) = length (tiles m)"
    and "\<forall>p < length (tiles m). counters s civID ! p = Some (Num (k p))"
  shows "length (tiles s') = length (tiles m)
    \<and> (\<forall>p < length (tiles m). counters s' civID ! p = Some (Num (k p + int (unitsNear m units p))))"
  using assms
proof (induction units arbitrary: s k)
  case Nil
  then show ?case by (simp add: unitsNear_def)
next
  case (Cons u units)
  let ?cs = "getNeighborsCoords m (coords u) 3 None"
  have nb: "getNeighborsCoords s (coords u) 3 None = ?cs"
    using Cons.prems(2) by (rule getNeighborsCoords_shape)
  from Cons.prems(1) obtain s1 where
    one: "forEach (lightOn civID) ?cs s = Some s1"
    and rest: "forEach (\<lambda>u s. forEach (lightOn civID) (getNeighborsCoords s (coords u) 3 None) s) units s1 = Some s'"
    by (auto simp: nb split: option.splits)
  have pe: "pos s = pos m" by (rule ext) (rule sameShape_pos [OF Cons.prems(2)])
  have d: "distinct (map (pos s) ?cs)" unfolding pe by (rule getNeighborsCoords_distinct)
  from lightOn_loop [OF one d] have sh: "sameShape s s1" and l: "length (tiles s1) = length (tiles s)"
    and c: "\<forall>p < length (tiles s). counters s1 civID ! p
          = (if int p \<in> pos m ` set ?cs then Some (incr_js (counters s civID ! p))
             else counters s civID ! p)"
    by (simp_all add: pe)
  let ?k = "\<lambda>p. k p + (if int p \<in> pos m ` set ?cs then 1 else 0)"
  have k1: "\<forall>p < length (tiles m). counters s1 civID ! p = Some (Num (?k p))"
    using c Cons.prems(3,4) by simp
  from Cons.IH [OF rest sameShape_trans [OF Cons.prems(2) sh] _ k1] l Cons.prems(3)
  have "length (tiles s') = length (tiles m)"
    and "\<forall>p < length (tiles m). counters s' civID ! p = Some (Num (?k p + int (unitsNear m units p)))"
    by simp_all
  then show ?case by (simp add: unitsNear_def)
qed

lemma clearAll_counters:
  assumes "clearAll civID (tiles m) = Some ts"
  shows "length ts = length (tiles m)" and "sameShape m (m\<lparr>tiles := ts\<rparr>)"
    and "\<forall>p < length (tiles m). counters (m\<lparr>tiles := ts\<rparr>) civID ! p = Some (Num 0)"
proof -
  from assms have ts: "ts = map (map_option (\<lambda>t. clearVisibility t civID)) (tiles m)"
    and ne: "\<not> list_ex Option.is_none (tiles m)"
    by (simp_all add: clearAll_def split: if_splits)
  show "length ts = length (tiles m)" by (simp add: ts)
  have "getTile (m\<lparr>tiles := ts\<rparr>) a = map_option (\<lambda>t. clearVisibility t civID) (getTile m a)" for a
    by (simp add: getTile_def pos_def Let_def ts nat_less_iff)
  then show "sameShape m (m\<lparr>tiles := ts\<rparr>)"
    by (simp add: sameShape_def)
  show "\<forall>p < length (tiles m). counters (m\<lparr>tiles := ts\<rparr>) civID ! p = Some (Num 0)"
  proof (intro allI impI)
    fix p assume p: "p < length (tiles m)"
    with ne have "\<not> Option.is_none (tiles m ! p)" by (auto simp: list_ex_iff)
    then obtain t where "tiles m ! p = Some t" by (cases "tiles m ! p") simp_all
    with p show "counters (m\<lparr>tiles := ts\<rparr>) civID ! p = Some (Num 0)"
      by (simp add: counters_def ts clearVisibility_def)
  qed
qed

lemma updateCivTileVisibility_counters:
  assumes "updateCivTileVisibility m civID units = Some m'"
  shows "length (tiles m') = length (tiles m)
    \<and> (\<forall>p < length (tiles m). counters m' civID ! p = Some (Num (int (unitsNear m units p))))"
proof -
  from assms obtain ts where c: "clearAll civID (tiles m) = Some ts"
    and r: "forEach (\<lambda>u m'. forEach (lightOn civID) (getNeighborsCoords m' (coords u) 3 None) m')
              units (m\<lparr>tiles := ts\<rparr>) = Some m'"
    by (auto simp: updateCivTileVisibility_def split: option.splits)
  note f = clearAll_counters [OF c]
  from relight_counters [OF r f(2), of "\<lambda>p. 0"] f(1,3) show ?thesis by simp
qed

lemma nonneg_counters:
  assumes "\<forall>p < length (tiles m). counterOK (counters m civ ! p)"
  shows "nonneg m civ"
  unfolding nonneg_def list_all_length
proof (intro allI impI)
  fix p assume p: "p < length (tiles m)"
  with assms have "counterOK (counters m civ ! p)" by simp
  with p show "case tiles m ! p of None \<Rightarrow> True | Some t' \<Rightarrow> counterOK (visibleTo t' civ)"
    by (cases "tiles m ! p") (simp_all add: counters_def)
qed


lemma is_some_the: "\<not> Option.is_none v \<Longrightarrow> v = Some (the v)"
  by (cases v) simp_all


text \<open>
  C1 as stated fails, in two ways. \<^verbatim>\<open>updateCivTileVisibility\<close> clears every counter of
  the civ and lights again from the units only, so a tile that was lit because a city of
  the civ owns it is back at 0; \<^verbatim>\<open>setTileOwner\<close> with \<open>overwrite\<close> then takes the light of
  the old owner off and leaves -1 (the centre of the 3 by 3 map, slot 4). And
  \<^verbatim>\<open>moveUnitTo\<close> takes the light off around the old position whether or not it was ever
  put on: placing the scout where it stands leaves every counter at 0, and its first move
  from (0, 3) to (0, 6) leaves -1 on the three tiles it saw (slots 2, 3 and 4) once the
  handler has returned.
\<close>

theorem C1_counterexample:
  "counters nextTurnMap 0 = replicate 9 (Some (Num 0))
   \<and> \<not> Option.is_none (setTileOwner nextTurnMap \<lparr>x = 1, y = 1\<rparr> 1 True)
   \<and> counters conqueredMap 0 = [Some (Num 0), Some (Num 0), Some (Num 0), Some (Num 0),
         Some (Num (- 1)), Some (Num 0), Some (Num 0), Some (Num 0), Some (Num 0)]
   \<and> \<not> nonneg conqueredMap 0
   \<and> counters columnPlaced 0 = replicate 12 (Some (Num 0))
   \<and> map_option (\<lambda>r. (counters (fst r) 0, coords (snd r)))
         (moveUnitTo columnPlaced scout \<lparr>x = 0, y = 6\<rparr>)
       = Some ([Some (Num 0), Some (Num 0), Some (Num (- 1)), Some (Num (- 1)), Some (Num (- 1)),
                Some (Num 1), Some (Num 1), Some (Num 1), Some (Num 0), Some (Num 0),
                Some (Num 0), Some (Num 0)], \<lparr>x = 0, y = 6\<rparr>)"
  by code_simp

text \<open>
  C1 (amended), counter by counter; a counter is in order when it is a number that is
  not negative.
  \<^verbatim>\<open>updateCivTileVisibility(civID)\<close> leaves every counter of \<open>civID\<close> equal to the
  number of the units of the civ whose \<^verbatim>\<open>getNeighbors(x, y, 3)\<close> holds the tile, whatever
  it was, and changes no counter of another civ.
  \<^verbatim>\<open>buildImprovementAt\<close> and the three errand starts change no counter.
  \<^verbatim>\<open>setTileOwner\<close> changes no counter when the tile has an owner and \<open>overwrite\<close>
  is false; otherwise it changes the counters of that tile only: one off for the civ of
  the old owner, if there is one, then one on for the civ of the new owner. So every
  counter that was in order is in order after it when \<open>overwrite\<close> is false, or the tile
  had no owner, or the tile was lit for the civ of its owner.
  After \<^verbatim>\<open>settleCityAt\<close> every counter that was in order is in order.
  After \<^verbatim>\<open>moveUnitTo\<close> a counter of another civ is unchanged, and a counter of the civ
  of the unit is the old one, less one when the tile is seen from the old position, plus
  one when it is seen from the new position; so a counter that was in order is in order
  after the move when its tile is not seen from the old position or the counter was at
  least 1. Nothing is said of the number of vision cones after a move.
\<close>

theorem C1_counters_after_handlers:
  "(updateCivTileVisibility m civID units = Some m' \<longrightarrow>
        nonneg m' civID
      \<and> length (tiles m') = length (tiles m)
      \<and> (\<forall>p < length (tiles m). counters m' civID ! p = Some (Num (int (unitsNear m units p))))
      \<and> (civ \<noteq> civID \<longrightarrow> counters m' civ = counters m civ))
   \<and> (buildImprovementAt m c ty civID = Some m' \<longrightarrow> counters m' civ = counters m civ)
   \<and> (startConstructionAt env m c ty civID = Some m'
          \<or> trainUnitAt env m c ty civID = Some m'
          \<or> researchKnowledgeAt env m c ty civID = Some m' \<longrightarrow> counters m' civ = counters m civ)
   \<and> (setTileOwner m c ow overwrite = Some m' \<and> getTile m c = Some tile \<longrightarrow>
        counters m' civ
          = (if owner tile \<noteq> None \<and> \<not> overwrite then counters m civ
             else (counters m civ)[nat (pos m c) :=
                    relit (\<exists>old. owner tile = Some old \<and> civ = c_civID (cities m ! old))
                          (civ = c_civID (cities m ! ow))
                          (counters m civ ! nat (pos m c))])
      \<and> (\<not> overwrite \<or> owner tile = None
            \<or> (\<exists>old. owner tile = Some old
                  \<and> counterPositive (visibleTo tile (c_civID (cities m ! old))))
          \<longrightarrow> countersKept civ m m'))
   \<and> (settleCityAt m c n civID = Some (m', ok) \<longrightarrow> countersKept civ m m')
   \<and> (moveUnitTo m u c = Some (m', u') \<longrightarrow>
        (\<exists>srcVisible newVisible.
            getVisibleTilesCoords m u None = Some srcVisible
          \<and> getVisibleTilesCoords m (u\<lparr>coords := c\<rparr>) None = Some newVisible
          \<and> length (tiles m') = length (tiles m)
          \<and> (\<forall>p < length (tiles m).
                counters m' civ ! p
                  = (if civ = u_civID u
                     then relit (int p \<in> pos m ` set srcVisible) (int p \<in> pos m ` set newVisible)
                            (counters m civ ! p)
                     else counters m civ ! p)
              \<and> (counterOK (counters m civ ! p)
                   \<and> (civ = u_civID u \<and> int p \<in> pos m ` set srcVisible
                        \<longrightarrow> counterPositive (counters m civ ! p))
                   \<longrightarrow> counterOK (counters m' civ ! p)))))"
proof (intro conjI impI)
  assume a: "updateCivTileVisibility m civID units = Some m'"
  note e = updateCivTileVisibility_counters [OF a]
  from e show "length (tiles m') = length (tiles m)" by simp
  from e show "\<forall>p < length (tiles m). counters m' civID ! p = Some (Num (int (unitsNear m units p)))"
    by simp
  from e have "\<forall>p < length (tiles m'). counterOK (counters m' civID ! p)" by simp
  then show "nonneg m' civID" by (rule nonneg_counters)
next
  assume "updateCivTileVisibility m civID units = Some m'" and "civ \<noteq> civID"
  then show "counters m' civ = counters m civ" by (rule updateCivTileVisibility_others)
next
  assume "buildImprovementAt m c ty civID = Some m'"
  then show "counters m' civ = counters m civ" by (rule buildImprovementAt_counters)
next
  assume "startConstructionAt env m c ty civID = Some m'
          \<or> trainUnitAt env m c ty civID = Some m'
          \<or> researchKnowledgeAt env m c ty civID = Some m'"
  then show "counters m' civ = counters m civ"
  proof (elim disjE)
    assume "startConstructionAt env m c ty civID = Some m'"
    then show ?thesis by (rule startConstructionAt_counters)
  next
    assume "trainUnitAt env m c ty civID = Some m'"
    then show ?thesis by (rule trainUnitAt_counters)
  next
    assume "researchKnowledgeAt env m c ty civID = Some m'"
    then show ?thesis by (rule researchKnowledgeAt_counters)
  qed
next
  assume a: "setTileOwner m c ow overwrite = Some m' \<and> getTile m c = Some tile"
  then have s: "setTileOwner m c ow overwrite = Some m'" and t: "getTile m c = Some tile" by simp_all
  from s t show "counters m' civ
          = (if owner tile \<noteq> None \<and> \<not> overwrite then counters m civ
             else (counters m civ)[nat (pos m c) :=
                    relit (\<exists>old. owner tile = Some old \<and> civ = c_civID (cities m ! old))
                          (civ = c_civID (cities m ! ow))
                          (counters m civ ! nat (pos m c))])"
    by (rule setTileOwner_counters)
  assume h: "\<not> overwrite \<or> owner tile = None
            \<or> (\<exists>old. owner tile = Some old
                  \<and> counterPositive (visibleTo tile (c_civID (cities m ! old))))"
  show "countersKept civ m m'"
  proof (cases overwrite)
    case False
    with s show ?thesis by (simp add: setTileOwner_False_kept)
  next
    case True
    with h have "owner tile = None \<or> (\<exists>old. owner tile = Some old
            \<and> counterPositive (visibleTo tile (c_civID (cities m ! old))))" by simp
    with s t True show ?thesis by (simp add: setTileOwner_True_kept)
  qed
next
  assume "settleCityAt m c n civID = Some (m', ok)"
  then show "countersKept civ m m'" by (rule settleCityAt_kept)
next
  assume mv: "moveUnitTo m u c = Some (m', u')"
  from moveUnitTo_counters [OF mv, of civ] obtain srcVisible newVisible where
    sv: "getVisibleTilesCoords m u None = Some srcVisible"
    and nv: "getVisibleTilesCoords m (u\<lparr>coords := c\<rparr>) None = Some newVisible"
    and len: "length (tiles m') = length (tiles m)"
    and ex: "\<forall>p < length (tiles m). counters m' civ ! p
          = (if civ = u_civID u
             then relit (int p \<in> pos m ` set srcVisible) (int p \<in> pos m ` set newVisible) (counters m civ ! p)
             else counters m civ ! p)"
    by blast
  have "counterOK (counters m' civ ! p)"
    if p: "p < length (tiles m)" and ok: "counterOK (counters m civ ! p)"
      and lit: "civ = u_civID u \<and> int p \<in> pos m ` set srcVisible \<longrightarrow> counterPositive (counters m civ ! p)"
    for p
  proof (cases "civ = u_civID u")
    case True
    have "counterOK (relit (int p \<in> pos m ` set srcVisible) (int p \<in> pos m ` set newVisible)
                      (counters m civ ! p))"
      using ok lit True by (intro relit_counterOK) simp_all
    with ex p True show ?thesis by simp
  next
    case False
    with ex p ok show ?thesis by simp
  qed
  with sv nv len ex
  show "\<exists>srcVisible newVisible.
            getVisibleTilesCoords m u None = Some srcVisible
          \<and> getVisibleTilesCoords m (u\<lparr>coords := c\<rparr>) None = Some newVisible
          \<and> length (tiles m') = length (tiles m)
          \<and> (\<forall>p < length (tiles m).
                counters m' civ ! p
                  = (if civ = u_civID u
                     then relit (int p \<in> pos m ` set srcVisible) (int p \<in> pos m ` set newVisible)
                            (counters m civ ! p)
                     else counters m civ ! p)
              \<and> (counterOK (counters m civ ! p)
                   \<and> (civ = u_civID u \<and> int p \<in> pos m ` set srcVisible
                        \<longrightarrow> counterPositive (counters m civ ! p))
                   \<longrightarrow> counterOK (counters m' civ ! p)))"
    by blast
qed

text \<open>The amended C1 on the two games of the concrete inputs.\<close>

theorem C1_counters_after_handlers_witness:
  "\<not> Option.is_none (updateCivTileVisibility (plainsMap 12 1) 0 [scout])
   \<and> nonneg columnLit 0
   \<and> counters columnLit 0 ! 3 = Some (Num (int (unitsNear (plainsMap 12 1) [scout] 3)))
   \<and> unitsNear (plainsMap 12 1) [scout] 3 = 1
   \<and> counters columnLit 1 = counters (plainsMap 12 1) 1
   \<and> \<not> Option.is_none (buildImprovementAt romeMap \<lparr>x = 0, y = 1\<rparr> ''farm'' 0)
   \<and> counters (the (buildImprovementAt romeMap \<lparr>x = 0, y = 1\<rparr> ''farm'' 0)) 0 = counters romeMap 0
   \<and> \<not> Option.is_none (trainUnitAt exampleEnv romeMap \<lparr>x = 1, y = 1\<rparr> ''settler'' 0)
   \<and> counters (the (trainUnitAt exampleEnv romeMap \<lparr>x = 1, y = 1\<rparr> ''settler'' 0)) 0 = counters romeMap 0
   \<and> \<not> Option.is_none (setTileOwner romeMap \<lparr>x = 0, y = 0\<rparr> 0 False)
   \<and> owner (the (getTile romeMap \<lparr>x = 0, y = 0\<rparr>)) = None
   \<and> counters (the (setTileOwner romeMap \<lparr>x = 0, y = 0\<rparr> 0 False)) 0
       = (counters romeMap 0)[nat (pos romeMap \<lparr>x = 0, y = 0\<rparr>) :=
            relit False (0 = c_civID (cities romeMap ! 0))
              (counters romeMap 0 ! nat (pos romeMap \<lparr>x = 0, y = 0\<rparr>))]
   \<and> countersKept 0 romeMap (the (setTileOwner romeMap \<lparr>x = 0, y = 0\<rparr> 0 False))
   \<and> \<not> Option.is_none (setTileOwner carthageMap \<lparr>x = 1, y = 1\<rparr> 1 True)
   \<and> owner (the (getTile carthageMap \<lparr>x = 1, y = 1\<rparr>)) = Some 0
   \<and> counterPositive (visibleTo (the (getTile carthageMap \<lparr>x = 1, y = 1\<rparr>)) (c_civID (cities carthageMap ! 0)))
   \<and> countersKept 0 carthageMap (the (setTileOwner carthageMap \<lparr>x = 1, y = 1\<rparr> 1 True))
   \<and> \<not> Option.is_none (settleCityAt clearedMap \<lparr>x = 1, y = 1\<rparr> ''Rome'' 0)
   \<and> countersKept 0 clearedMap romeMap
   \<and> \<not> Option.is_none (moveUnitTo columnLit scout \<lparr>x = 0, y = 6\<rparr>)
   \<and> (\<exists>srcVisible newVisible.
            getVisibleTilesCoords columnLit scout None = Some srcVisible
          \<and> getVisibleTilesCoords columnLit (scout\<lparr>coords := \<lparr>x = 0, y = 6\<rparr>\<rparr>) None = Some newVisible
          \<and> length (tiles (fst (the (moveUnitTo columnLit scout \<lparr>x = 0, y = 6\<rparr>)))) = length (tiles columnLit)
          \<and> (\<forall>p < length (tiles columnLit).
                counters (fst (the (moveUnitTo columnLit scout \<lparr>x = 0, y = 6\<rparr>))) 0 ! p
                  = (if 0 = u_civID scout
                     then relit (int p \<in> pos columnLit ` set srcVisible) (int p \<in> pos columnLit ` set newVisible)
                            (counters columnLit 0 ! p)
                     else counters columnLit 0 ! p)
              \<and> (counterOK (counters columnLit 0 ! p)
                   \<and> (0 = u_civID scout \<and> int p \<in> pos columnLit ` set srcVisible
                        \<longrightarrow> counterPositive (counters columnLit 0 ! p))
                   \<longrightarrow> counterOK (counters (fst (the (moveUnitTo columnLit scout \<lparr>x = 0, y = 6\<rparr>))) 0 ! p))))"
proof -
  let ?centre = "\<lparr>x = 1, y = 1\<rparr>"
  let ?corner = "\<lparr>x = 0, y = 0\<rparr>"
  have h0: "\<not> Option.is_none (updateCivTileVisibility (plainsMap 12 1) 0 [scout])" by code_simp
  then have s0: "updateCivTileVisibility (plainsMap 12 1) 0 [scout] = Some columnLit"
    unfolding columnLit_def by (rule is_some_the)
  have l0: "(3 :: nat) < length (tiles (plainsMap 12 1))" by (simp add: plainsMap_def)
  note u0 = C1_counters_after_handlers [where m = "plainsMap 12 1" and civID = 0
      and units = "[scout]" and m' = columnLit and civ = 1, THEN conjunct1, rule_format, OF s0]
  from u0 have n0: "nonneg columnLit 0" by simp
  from u0 l0 have n1: "counters columnLit 0 ! 3 = Some (Num (int (unitsNear (plainsMap 12 1) [scout] 3)))"
    by simp
  have n2: "unitsNear (plainsMap 12 1) [scout] 3 = 1" by code_simp
  from u0 have n3: "counters columnLit 1 = counters (plainsMap 12 1) 1" by simp
  have h4: "\<not> Option.is_none (buildImprovementAt romeMap \<lparr>x = 0, y = 1\<rparr> ''farm'' 0)" by code_simp
  then have "buildImprovementAt romeMap \<lparr>x = 0, y = 1\<rparr> ''farm'' 0
      = Some (the (buildImprovementAt romeMap \<lparr>x = 0, y = 1\<rparr> ''farm'' 0))" by (rule is_some_the)
  then have n4: "counters (the (buildImprovementAt romeMap \<lparr>x = 0, y = 1\<rparr> ''farm'' 0)) 0 = counters romeMap 0"
    using C1_counters_after_handlers [where m = romeMap and c = "\<lparr>x = 0, y = 1\<rparr>"
        and ty = "''farm''" and civID = 0 and civ = 0
        and m' = "the (buildImprovementAt romeMap \<lparr>x = 0, y = 1\<rparr> ''farm'' 0)"] by simp
  have h5: "\<not> Option.is_none (trainUnitAt exampleEnv romeMap ?centre ''settler'' 0)" by code_simp
  then have "trainUnitAt exampleEnv romeMap ?centre ''settler'' 0
      = Some (the (trainUnitAt exampleEnv romeMap ?centre ''settler'' 0))" by (rule is_some_the)
  then have n5: "counters (the (trainUnitAt exampleEnv romeMap ?centre ''settler'' 0)) 0 = counters romeMap 0"
    using C1_counters_after_handlers [where m = romeMap and c = ?centre and env = exampleEnv
        and ty = "''settler''" and civID = 0 and civ = 0
        and m' = "the (trainUnitAt exampleEnv romeMap ?centre ''settler'' 0)"] by simp
  have h6: "\<not> Option.is_none (setTileOwner romeMap ?corner 0 False)" by code_simp
  then have s6: "setTileOwner romeMap ?corner 0 False
      = Some (the (setTileOwner romeMap ?corner 0 False))" by (rule is_some_the)
  have "\<not> Option.is_none (getTile romeMap ?corner)" by code_simp
  then have t6: "getTile romeMap ?corner = Some (the (getTile romeMap ?corner))" by (rule is_some_the)
  have o6: "owner (the (getTile romeMap ?corner)) = None" by code_simp
  note c6 = C1_counters_after_handlers [where m = romeMap and c = ?corner and ow = 0
        and overwrite = False and civ = 0 and tile = "the (getTile romeMap ?corner)"
        and m' = "the (setTileOwner romeMap ?corner 0 False)",
        THEN conjunct2, THEN conjunct2, THEN conjunct2, THEN conjunct1, rule_format, OF conjI [OF s6 t6]]
  from c6 o6 have n6: "counters (the (setTileOwner romeMap ?corner 0 False)) 0
       = (counters romeMap 0)[nat (pos romeMap ?corner) :=
            relit False (0 = c_civID (cities romeMap ! 0))
              (counters romeMap 0 ! nat (pos romeMap ?corner))]"
    by simp
  from c6 have k6: "countersKept 0 romeMap (the (setTileOwner romeMap ?corner 0 False))" by simp
  have h7: "\<not> Option.is_none (setTileOwner carthageMap ?centre 1 True)" by code_simp
  then have s7: "setTileOwner carthageMap ?centre 1 True
      = Some (the (setTileOwner carthageMap ?centre 1 True))" by (rule is_some_the)
  have "\<not> Option.is_none (getTile carthageMap ?centre)" by code_simp
  then have t7: "getTile carthageMap ?centre = Some (the (getTile carthageMap ?centre))"
    by (rule is_some_the)
  have o7: "owner (the (getTile carthageMap ?centre)) = Some 0" by code_simp
  have lit: "counterPositive (visibleTo (the (getTile carthageMap ?centre)) (c_civID (cities carthageMap ! 0)))"
    by code_simp
  note c7 = C1_counters_after_handlers [where m = carthageMap and c = ?centre and ow = 1
        and overwrite = True and civ = 0 and tile = "the (getTile carthageMap ?centre)"
        and m' = "the (setTileOwner carthageMap ?centre 1 True)",
        THEN conjunct2, THEN conjunct2, THEN conjunct2, THEN conjunct1, rule_format, OF conjI [OF s7 t7]]
  from c7 o7 lit have k7: "countersKept 0 carthageMap (the (setTileOwner carthageMap ?centre 1 True))"
    by simp
  have h8: "\<not> Option.is_none (settleCityAt clearedMap ?centre ''Rome'' 0)" by code_simp
  then have "settleCityAt clearedMap ?centre ''Rome'' 0
      = Some (romeMap, snd (the (settleCityAt clearedMap ?centre ''Rome'' 0)))"
    unfolding romeMap_def by (simp add: is_some_the)
  then have k8: "countersKept 0 clearedMap romeMap"
    using C1_counters_after_handlers [where m = clearedMap and c = ?centre and n = "''Rome''"
        and civID = 0 and m' = romeMap and civ = 0] by simp
  have h9: "\<not> Option.is_none (moveUnitTo columnLit scout \<lparr>x = 0, y = 6\<rparr>)" by code_simp
  then have mv: "moveUnitTo columnLit scout \<lparr>x = 0, y = 6\<rparr>
      = Some (fst (the (moveUnitTo columnLit scout \<lparr>x = 0, y = 6\<rparr>)),
              snd (the (moveUnitTo columnLit scout \<lparr>x = 0, y = 6\<rparr>)))"
    by (simp add: is_some_the)
  note n9 = C1_counters_after_handlers [where m = columnLit and u = scout and civ = 0
        and c = "\<lparr>x = 0, y = 6\<rparr>"
        and m' = "fst (the (moveUnitTo columnLit scout \<lparr>x = 0, y = 6\<rparr>))"
        and u' = "snd (the (moveUnitTo columnLit scout \<lparr>x = 0, y = 6\<rparr>))",
        THEN conjunct2, THEN conjunct2, THEN conjunct2, THEN conjunct2, THEN conjunct2,
        rule_format, OF mv]
  from h0 n0 n1 n2 n3 h4 n4 h5 n5 h6 o6 n6 k6 h7 o7 lit k7 h8 k8 h9 n9 show ?thesis by (intro conjI)
qed

end
